theory Spec2Isabelle
  imports Complex_Main "HOL-Library.Sublist"
begin

section \<open>Strings and numbers of the host language\<close>

text \<open>
  JavaScript strings are modelled as \<open>string\<close>, byte buffers as \<open>string\<close> too (one
  \<open>char\<close> per byte). \<open>includesStr\<close> is \<open>String.prototype.includes\<close>.
\<close>

fun includesStr :: "string \<Rightarrow> string \<Rightarrow> bool" where
  "includesStr [] pat = (pat = [])"
| "includesStr (c # cs) pat = (prefix pat (c # cs) \<or> includesStr cs pat)"

text \<open>
  \<open>text.replace(/literal/g, rep)\<close> for a literal, non-empty pattern: the text is scanned
  from the left, every match is replaced and the scan goes on behind the match, so
  matches do not overlap and replaced text is not scanned again. All patterns of
  the service are non-empty literals, and no replacement string of the service contains
  the character \<open>$\<close>.
\<close>

fun replaceAll :: "string \<Rightarrow> string \<Rightarrow> string \<Rightarrow> string" where
  "replaceAll pat rep [] = []"
| "replaceAll pat rep (c # cs) =
     (if pat \<noteq> [] \<and> prefix pat (c # cs)
      then rep @ replaceAll pat rep (drop (length pat) (c # cs))
      else c # replaceAll pat rep cs)"

text \<open>\<open>Number.prototype.toString\<close> and template interpolation, on integer values.\<close>

definition digitChar :: "nat \<Rightarrow> char" where
  "digitChar d = ''0123456789'' ! (d mod 10)"

fun showNat :: "nat \<Rightarrow> string" where
  "showNat n = (if n < 10 then [digitChar n] else showNat (n div 10) @ [digitChar (n mod 10)])"

declare showNat.simps [simp del]

definition showInt :: "int \<Rightarrow> string" where
  "showInt i = (if i < 0 then CHR ''-'' # showNat (nat (- i)) else showNat (nat i))"

section \<open>ColorCodec: hexToRgb\<close>

text \<open>
  The character class \<open>[a-f\d]\<close> under the flag \<open>i\<close>, and \<open>parseInt(s, 16)\<close> on a
  string of two such characters.
\<close>

definition isHexDigit :: "char \<Rightarrow> bool" where
  "isHexDigit c = (c \<in> set ''0123456789abcdefABCDEF'')"

definition hexDigitValue :: "char \<Rightarrow> nat" where
  "hexDigitValue c =
     (let n = (of_char c :: nat) in
      if 48 \<le> n \<and> n \<le> 57 then n - 48
      else if 97 \<le> n \<and> n \<le> 102 then n - 87
      else if 65 \<le> n \<and> n \<le> 70 then n - 55
      else 0)"

definition parseHexPair :: "char \<Rightarrow> char \<Rightarrow> nat" where
  "parseHexPair hi lo = 16 * hexDigitValue hi + hexDigitValue lo"

record rgb_color =
  rgb_r :: rat
  rgb_g :: rat
  rgb_b :: rat

text \<open>
  The regular expression \<open>/^#?([a-f\d]{2})([a-f\d]{2})([a-f\d]{2})$/i\<close>: an optional
  \<open>#\<close>, then exactly six hexadecimal digits up to the end of the input. The result of
  \<open>exec\<close> is the three captured pairs, or \<open>None\<close> for \<open>null\<close>.
\<close>

definition hexPattern :: "string \<Rightarrow> ((char \<times> char) \<times> (char \<times> char) \<times> (char \<times> char)) option" where
  "hexPattern hex =
     (let body = (case hex of c # cs \<Rightarrow> (if c = CHR ''#'' then cs else hex) | [] \<Rightarrow> hex) in
      case body of
        [c1, c2, c3, c4, c5, c6] \<Rightarrow>
          (if list_all isHexDigit body then Some ((c1, c2), (c3, c4), (c5, c6)) else None)
      | _ \<Rightarrow> None)"

text \<open>
  The components are the quotients \<open>parseInt(pair, 16) / 255\<close>, taken here as exact
  rationals (the source computes the nearest double).
\<close>

definition hexToRgb :: "string \<Rightarrow> rgb_color" where
  "hexToRgb hex =
     (case hexPattern hex of
        Some ((a, b), (c, d), (e, f)) \<Rightarrow>
          \<lparr> rgb_r = of_nat (parseHexPair a b) / 255,
            rgb_g = of_nat (parseHexPair c d) / 255,
            rgb_b = of_nat (parseHexPair e f) / 255 \<rparr>
      | None \<Rightarrow> \<lparr> rgb_r = 0, rgb_g = 0, rgb_b = 0 \<rparr>)"

section \<open>TemplateEngine: processTemplate\<close>

definition processTemplate :: "string \<Rightarrow> int \<Rightarrow> int \<Rightarrow> string" where
  "processTemplate text pageNum totalPages =
     replaceAll ''(file)'' ''Document''
       (replaceAll ''(x)'' (showInt pageNum)
         (replaceAll ''Page (x)'' (''Page '' @ showInt pageNum)
           (replaceAll ''(x) of (y)'' (showInt pageNum @ '' of '' @ showInt totalPages)
             (replaceAll ''Page (x) of (y)''
                (''Page '' @ showInt pageNum @ '' of '' @ showInt totalPages) text))))"

section \<open>SplitPlanner: splitPDF\<close>

text \<open>
  The split configuration after the defaults of the destructuring have been applied.
  Page numbers, range bounds and the chunk size are the results of \<open>parseInt\<close>, \<open>None\<close>
  standing for \<open>NaN\<close>.
\<close>

record split_data =
  sd_splitType :: string
  sd_pages :: "int option list"
  sd_ranges :: "(int option \<times> int option) list"
  sd_everyNPages :: "int option"
  sd_fileName :: string

text \<open>
  One output document. \<open>sr_buffer\<close> stands for the saved bytes of the new document: it
  lists the 0-based source page indices copied into it, in order (\<open>copyPages\<close> on indices
  of the source document and \<open>save\<close> are taken to succeed). \<open>sr_pageCount\<close> is a number
  of the host language, \<open>None\<close> standing for \<open>NaN\<close>.
\<close>

record split_result =
  sr_buffer :: "nat list"
  sr_filename :: string
  sr_pageRange :: string
  sr_pageCount :: "int option"

datatype split_error = SplitLoadFailed | InvalidSplitType string | NoValidPagesOrRanges

fun splitByPages :: "nat \<Rightarrow> string \<Rightarrow> int option list \<Rightarrow> split_result list" where
  "splitByPages totalPages fileName [] = []"
| "splitByPages totalPages fileName (p # ps) =
     (case p of
        Some pageNum \<Rightarrow>
          (if pageNum > 0 \<and> pageNum \<le> int totalPages
           then \<lparr> sr_buffer = [nat (pageNum - 1)],
                  sr_filename = fileName @ ''_page_'' @ showInt pageNum @ ''.pdf'',
                  sr_pageRange = ''Page '' @ showInt pageNum,
                  sr_pageCount = Some 1 \<rparr> # splitByPages totalPages fileName ps
           else splitByPages totalPages fileName ps)
      | None \<Rightarrow> splitByPages totalPages fileName ps)"

fun splitByRanges :: "nat \<Rightarrow> string \<Rightarrow> (int option \<times> int option) list \<Rightarrow> split_result list" where
  "splitByRanges totalPages fileName [] = []"
| "splitByRanges totalPages fileName ((Some start, Some end') # rs) =
     (let startPage = max 1 start; endPage = min (int totalPages) end' in
      if startPage \<le> endPage
      then \<lparr> sr_buffer = map (\<lambda>pageNum. nat (pageNum - 1)) [startPage..endPage],
             sr_filename = fileName @ ''_pages_'' @ showInt startPage @ ''_to_'' @ showInt endPage @ ''.pdf'',
             sr_pageRange = ''Pages '' @ showInt startPage @ ''-'' @ showInt endPage,
             sr_pageCount = Some (endPage - startPage + 1) \<rparr> # splitByRanges totalPages fileName rs
      else splitByRanges totalPages fileName rs)"
| "splitByRanges totalPages fileName (_ # rs) = splitByRanges totalPages fileName rs"

text \<open>
  The loop \<open>for (let i = 0; i < totalPages; i += n)\<close> with
  \<open>n = Math.max(1, parseInt(everyNPages))\<close>, for a chunk size that parses to an integer.
\<close>

function splitEvery :: "nat \<Rightarrow> string \<Rightarrow> int \<Rightarrow> nat \<Rightarrow> nat \<Rightarrow> split_result list" where
  "splitEvery totalPages fileName everyN i partNumber =
     (let n = nat (max 1 everyN) in
      if i < totalPages
      then (let endIndex = min (i + n) totalPages;
                startPage = int i + 1;
                endPage = int endIndex
            in \<lparr> sr_buffer = [i..<endIndex],
                 sr_filename = fileName @ ''_part_'' @ showNat partNumber @ ''.pdf'',
                 sr_pageRange = ''Pages '' @ showInt startPage @ ''-'' @ showInt endPage,
                 sr_pageCount = Some (endPage - startPage + 1) \<rparr>
               # splitEvery totalPages fileName everyN (i + n) (partNumber + 1))
      else [])"
  by pat_completeness auto
termination
  by (relation "measure (\<lambda>(totalPages, fileName, everyN, i, partNumber). totalPages - i)") auto

declare splitEvery.simps [simp del]

text \<open>
  The same loop when \<open>parseInt(everyNPages)\<close> is \<open>NaN\<close>: then \<open>n\<close> and \<open>endIndex\<close> are
  \<open>NaN\<close>, the inner loop copies no page, and \<open>i += n\<close> ends the outer loop after its
  first round.
\<close>

definition splitEveryNaN :: "nat \<Rightarrow> string \<Rightarrow> split_result list" where
  "splitEveryNaN totalPages fileName =
     (if 0 < totalPages
      then [\<lparr> sr_buffer = [], sr_filename = fileName @ ''_part_'' @ showNat 1 @ ''.pdf'',
              sr_pageRange = ''Pages '' @ showInt 1 @ ''-NaN'', sr_pageCount = None \<rparr>]
      else [])"

text \<open>
  \<open>loaded\<close> is the page count of the loaded source document, \<open>None\<close> when
  \<open>PDFDocument.load\<close> throws.
\<close>

definition splitPDF :: "nat option \<Rightarrow> split_data \<Rightarrow> split_error + split_result list" where
  "splitPDF loaded splitData =
     (case loaded of
        None \<Rightarrow> Inl SplitLoadFailed
      | Some totalPages \<Rightarrow>
          (let planned =
             (if sd_splitType splitData = ''pages''
              then Inr (splitByPages totalPages (sd_fileName splitData) (sd_pages splitData))
              else if sd_splitType splitData = ''ranges''
              then Inr (splitByRanges totalPages (sd_fileName splitData) (sd_ranges splitData))
              else if sd_splitType splitData = ''every''
              then (case sd_everyNPages splitData of
                      Some everyN \<Rightarrow> Inr (splitEvery totalPages (sd_fileName splitData) everyN 0 1)
                    | None \<Rightarrow> Inr (splitEveryNaN totalPages (sd_fileName splitData)))
              else Inl (InvalidSplitType (sd_splitType splitData)))
           in case planned of
                Inl e \<Rightarrow> Inl e
              | Inr results \<Rightarrow> (if results = [] then Inl NoValidPagesOrRanges else Inr results)))"

section \<open>AnnotationPipeline: headers, footers and watermarks\<close>

text \<open>
  What is drawn on the pages of the loaded document, in order. The horizontal position
  of a header or footer text depends on the measured width of the text, which the font
  of the library supplies; it is kept as the alignment. The position of a watermark is
  kept as its position keyword.
\<close>

datatype h_align = AlignLeft | AlignMiddle | AlignRight

datatype draw_op =
    DrawRectangle nat int
  | DrawText nat string h_align int int rgb_color
  | DrawWatermark nat string string int rgb_color "rat option" int

datatype annotate_error = AnnotateLoadFailed | PageUndefined int

record header_footer_data =
  hf_leftHeader :: string
  hf_middleHeader :: string
  hf_rightHeader :: string
  hf_leftFooter :: string
  hf_middleFooter :: string
  hf_rightFooter :: string
  hf_startPage :: "int option"
  hf_coverWithWhite :: bool
  hf_textColor :: string
  hf_fontSize :: "int option"

text \<open>\<open>parseInt(v) || dflt\<close>: the default replaces \<open>NaN\<close> and \<open>0\<close>.\<close>

definition parsedOr :: "int option \<Rightarrow> int \<Rightarrow> int" where
  "parsedOr parsed dflt = (case parsed of None \<Rightarrow> dflt | Some n \<Rightarrow> (if n = 0 then dflt else n))"

definition headerY :: int where "headerY = 750"
definition footerY :: int where "footerY = 50"

text \<open>
  One header or footer slot on one page. The header and footer texts are taken to be
  texts that the font of the library measures and draws.
\<close>

definition slotText :: "header_footer_data \<Rightarrow> nat \<Rightarrow> nat \<Rightarrow> string \<Rightarrow> h_align \<Rightarrow> int \<Rightarrow> draw_op list" where
  "slotText cfg numPages i txt align y =
     (if txt \<noteq> []
      then [DrawText i (processTemplate txt (int i + 1) (int numPages)) align y
              (parsedOr (hf_fontSize cfg) 10) (hexToRgb (hf_textColor cfg))]
      else [])"

definition annotatePage :: "header_footer_data \<Rightarrow> nat \<Rightarrow> nat \<Rightarrow> draw_op list" where
  "annotatePage cfg numPages i =
     (if hf_coverWithWhite cfg then [DrawRectangle i (headerY - 5), DrawRectangle i (footerY - 5)] else [])
     @ slotText cfg numPages i (hf_leftHeader cfg) AlignLeft headerY
     @ slotText cfg numPages i (hf_middleHeader cfg) AlignMiddle headerY
     @ slotText cfg numPages i (hf_rightHeader cfg) AlignRight headerY
     @ slotText cfg numPages i (hf_leftFooter cfg) AlignLeft footerY
     @ slotText cfg numPages i (hf_middleFooter cfg) AlignMiddle footerY
     @ slotText cfg numPages i (hf_rightFooter cfg) AlignRight footerY"

text \<open>
  The loop \<open>for (let i = startPage - 1; i < pages.length; i++)\<close> for an integer
  \<open>startPage\<close>. \<open>pages[i]\<close> is \<open>undefined\<close> for a negative \<open>i\<close>, and \<open>page.getSize()\<close> then
  throws a TypeError.
\<close>

function annotateFrom :: "header_footer_data \<Rightarrow> nat \<Rightarrow> int \<Rightarrow> annotate_error + draw_op list" where
  "annotateFrom cfg numPages i =
     (if i < int numPages
      then (if i < 0 then Inl (PageUndefined i)
            else (case annotateFrom cfg numPages (i + 1) of
                    Inl e \<Rightarrow> Inl e
                  | Inr ops \<Rightarrow> Inr (annotatePage cfg numPages (nat i) @ ops)))
      else Inr [])"
  by pat_completeness auto
termination
  by (relation "measure (\<lambda>(cfg, numPages, i). nat (int numPages - i))") auto

declare annotateFrom.simps [simp del]

text \<open>
  \<open>hf_startPage\<close> is the number that \<open>startPage - 1\<close> is computed from, \<open>None\<close> when the
  difference is \<open>NaN\<close>: the loop condition is then false at once.
\<close>

definition addHeaderFooterToPDF :: "nat option \<Rightarrow> header_footer_data \<Rightarrow> annotate_error + draw_op list" where
  "addHeaderFooterToPDF loaded headerFooterData =
     (case loaded of
        None \<Rightarrow> Inl AnnotateLoadFailed
      | Some numPages \<Rightarrow>
          (case hf_startPage headerFooterData of
             Some startPage \<Rightarrow> annotateFrom headerFooterData numPages (startPage - 1)
           | None \<Rightarrow> Inr []))"

text \<open>
  The watermark configuration after the defaults of the destructuring have been applied.
  The numeric fields are the results of \<open>parseInt\<close> and \<open>parseFloat\<close>: an integer or a
  rational, \<open>None\<close> standing for \<open>NaN\<close>.
\<close>

record watermark_data =
  wm_text :: string
  wm_fontSize :: "int option"
  wm_opacity :: "rat option"
  wm_color :: string
  wm_rotation :: "int option"
  wm_position :: string
  wm_startPage :: "int option"
  wm_endPage :: "int option"

text \<open>
  \<open>Math.max(0, Math.min(1, parseFloat(opacity)))\<close>; \<open>None\<close> is \<open>NaN\<close>, which both
  \<open>Math.min\<close> and \<open>Math.max\<close> hand on.
\<close>

definition watermarkOpacity :: "rat option \<Rightarrow> rat option" where
  "watermarkOpacity parsed = map_option (\<lambda>x. max 0 (min 1 x)) parsed"

definition watermarkSize :: "int option \<Rightarrow> int" where
  "watermarkSize parsed = parsedOr parsed 48"

definition watermarkRotation :: "int option \<Rightarrow> int" where
  "watermarkRotation parsed = parsedOr parsed 45"

text \<open>
  The page window. \<open>wm_endPage = Some 0\<close> is the number \<open>0\<close> ("all pages"). A \<open>NaN\<close>
  bound makes the loop condition false at once.
\<close>

definition watermarkWindow :: "nat \<Rightarrow> watermark_data \<Rightarrow> nat list" where
  "watermarkWindow numPages w =
     (case wm_startPage w of
        None \<Rightarrow> []
      | Some startPage \<Rightarrow>
          (let startPageIndex = max 0 (startPage - 1) in
           case (if wm_endPage w = Some 0 then Some (int numPages) else wm_endPage w) of
             None \<Rightarrow> []
           | Some actualEndPage \<Rightarrow>
               (let endPageIndex = min (int numPages - 1) (actualEndPage - 1)
                in map nat [startPageIndex..endPageIndex])))"

text \<open>
  The text primitives of the library as the watermark loop observes them: whether
  \<open>font.widthOfTextAtSize(text, size)\<close> returns a width for a text, and whether
  \<open>page.drawText\<close> draws a text that comes with valid options. Each of them throws
  otherwise.
\<close>

record text_lib =
  tl_measures :: "string \<Rightarrow> bool"
  tl_draws :: "string \<Rightarrow> bool"

datatype watermark_error = WatermarkLoadFailed | TextNotMeasured | DrawTextRejected

text \<open>
  The body of the loop, page after page. \<open>calculateWatermarkPosition\<close> measures the text;
  then \<open>drawText\<close> checks its options and draws. An opacity that is \<open>NaN\<close> is no number
  for \<open>drawText\<close>, which throws. The first page on which something throws ends the call
  with \<open>Watermark processing failed\<close>.
\<close>

fun drawWatermarks :: "text_lib \<Rightarrow> watermark_data \<Rightarrow> nat list \<Rightarrow> watermark_error + draw_op list" where
  "drawWatermarks lib w [] = Inr []"
| "drawWatermarks lib w (i # rest) =
     (if \<not> tl_measures lib (wm_text w) then Inl TextNotMeasured
      else if watermarkOpacity (wm_opacity w) = None \<or> \<not> tl_draws lib (wm_text w)
      then Inl DrawTextRejected
      else case drawWatermarks lib w rest of
             Inl e \<Rightarrow> Inl e
           | Inr ops \<Rightarrow>
               Inr (DrawWatermark i (wm_text w) (wm_position w)
                      (watermarkSize (wm_fontSize w)) (hexToRgb (wm_color w))
                      (watermarkOpacity (wm_opacity w)) (watermarkRotation (wm_rotation w)) # ops))"

text \<open>
  \<open>loaded\<close> is the page count of the loaded document, \<open>None\<close> when \<open>PDFDocument.load\<close>
  throws; the final \<open>save\<close> is taken to succeed.
\<close>

definition addWatermarkToPDF ::
  "text_lib \<Rightarrow> nat option \<Rightarrow> watermark_data \<Rightarrow> watermark_error + draw_op list" where
  "addWatermarkToPDF lib loaded w =
     (case loaded of
        None \<Rightarrow> Inl WatermarkLoadFailed
      | Some numPages \<Rightarrow> drawWatermarks lib w (watermarkWindow numPages w))"

section \<open>The document library, as far as merge and compress observe it\<close>

type_synonym bytes = string

record load_options =
  ignoreEncryption :: bool
  throwOnInvalidObject :: bool
  updateMetadata :: bool

record save_options =
  useObjectStreams :: bool
  addDefaultPage :: bool
  objectsPerTick :: nat
  updateFieldAppearances :: bool
  compress :: bool

text \<open>
  A loaded source document: its pages, and for which index lists \<open>copyPages\<close> throws.
  When it does not throw, \<open>copyPages\<close> returns the pages at the indices, in order.
\<close>

record 'p source_pdf =
  src_pages :: "'p list"
  src_copyFails :: "nat list \<Rightarrow> bool"

text \<open>
  The library as merge sees it: \<open>PDFDocument.load\<close> (\<open>Inl\<close> carries the message of the
  error thrown), whether the timer of \<open>max(30 s, 1 s per MB)\<close> fires before the load of a
  buffer settles, and \<open>save\<close> of the merged document, which the service builds from
  \<open>PDFDocument.create()\<close> by \<open>addPage\<close> alone and which is therefore kept as the list of
  the pages added.
\<close>

record 'p pdf_lib =
  lib_load :: "load_options \<Rightarrow> bytes \<Rightarrow> string + 'p source_pdf"
  lib_timerFirst :: "bytes \<Rightarrow> bool"
  lib_save :: "save_options \<Rightarrow> 'p list \<Rightarrow> bytes option"

section \<open>ValidationPipeline: validatePDFStructure\<close>

datatype structure_error = InvalidHeader | MissingEOF | MissingCatalog | MissingPagesStructure

text \<open>
  \<open>TextDecoder\<close> decodes UTF-8: every ASCII byte decodes to itself and no other byte
  sequence decodes to an ASCII character, so a search for an ASCII marker in the decoded
  text is a search in the bytes; a byte order mark at the start of the decoded slice is
  dropped.
\<close>

definition dropBOM :: "bytes \<Rightarrow> bytes" where
  "dropBOM bs = (if prefix [CHR 0xEF, CHR 0xBB, CHR 0xBF] bs then drop 3 bs else bs)"

definition validatePDFStructure :: "bytes \<Rightarrow> structure_error option" where
  "validatePDFStructure pdfBytes =
     (if \<not> prefix ''%PDF-'' (dropBOM (take 8 pdfBytes)) then Some InvalidHeader
      else if \<not> includesStr (drop (length pdfBytes - 1024) pdfBytes) ''%%EOF'' then Some MissingEOF
      else if \<not> includesStr pdfBytes ''/Type /Catalog'' then Some MissingCatalog
      else if \<not> includesStr pdfBytes ''/Type /Pages'' then Some MissingPagesStructure
      else None)"

section \<open>MergeOrchestrator: mergePDFs\<close>

datatype merge_error =
    NoFilesProvided
  | AtLeastTwoRequired
  | TotalSizeExceeded
  | TooLargeOrComplex nat
  | CorruptedInput nat
  | FailedToProcess nat string
  | MergedSaveFailed
  | GeneratedCorrupted

definition megabyte :: nat where "megabyte = 1024 * 1024"

definition batchSizeFor :: "nat \<Rightarrow> nat" where
  "batchSizeFor bufferLength =
     (if bufferLength > 100 * megabyte then 5 else if bufferLength > 20 * megabyte then 10 else 20)"

text \<open>
  The retry of a failed batch, page by page. The result is the pages recovered and the
  indices skipped; the source reports a skipped index with \<open>console.error\<close> only.
\<close>

fun copySingly :: "'p source_pdf \<Rightarrow> nat list \<Rightarrow> 'p list \<times> nat list" where
  "copySingly doc [] = ([], [])"
| "copySingly doc (singlePageIdx # rest) =
     (let (copied, skipped) = copySingly doc rest in
      if src_copyFails doc [singlePageIdx]
      then (copied, singlePageIdx # skipped)
      else (src_pages doc ! singlePageIdx # copied, skipped))"

definition copyBatch :: "'p source_pdf \<Rightarrow> nat list \<Rightarrow> 'p list \<times> nat list" where
  "copyBatch doc pageIndices =
     (if src_copyFails doc pageIndices then copySingly doc pageIndices
      else (map (\<lambda>i. src_pages doc ! i) pageIndices, []))"

text \<open>
  The loop \<open>for (let pageStart = 0; pageStart < pageCount; pageStart += batchSize)\<close>
  over one source document.
\<close>

function copyInBatches :: "'p source_pdf \<Rightarrow> nat \<Rightarrow> nat \<Rightarrow> 'p list \<times> nat list" where
  "copyInBatches doc bufferLength pageStart =
     (let pageCount = length (src_pages doc); batchSize = batchSizeFor bufferLength in
      if pageStart < pageCount
      then (let pageEnd = min (pageStart + batchSize) pageCount;
                (batchPages, batchSkipped) = copyBatch doc [pageStart..<pageEnd];
                (morePages, moreSkipped) = copyInBatches doc bufferLength (pageStart + batchSize)
            in (batchPages @ morePages, batchSkipped @ moreSkipped))
      else ([], []))"
  by pat_completeness auto
termination
  by (relation "measure (\<lambda>(doc, bufferLength, pageStart). length (src_pages doc) - pageStart)")
     (auto simp: batchSizeFor_def)

declare copyInBatches.simps [simp del]

definition mergeLoadOptions :: load_options where
  "mergeLoadOptions = \<lparr> ignoreEncryption = True, throwOnInvalidObject = False, updateMetadata = False \<rparr>"

definition validationLoadOptions :: load_options where
  "validationLoadOptions = \<lparr> ignoreEncryption = True, throwOnInvalidObject = True, updateMetadata = False \<rparr>"

definition mergeSaveOptions :: save_options where
  "mergeSaveOptions = \<lparr> useObjectStreams = False, addDefaultPage = False, objectsPerTick = 50,
                         updateFieldAppearances = False, compress = False \<rparr>"

definition classifyLoadError :: "nat \<Rightarrow> string \<Rightarrow> merge_error" where
  "classifyLoadError fileNumber message =
     (if includesStr message ''timeout'' then TooLargeOrComplex fileNumber
      else if includesStr message ''Invalid PDF'' then CorruptedInput fileNumber
      else FailedToProcess fileNumber message)"

text \<open>
  The loop over the input buffers, from buffer number \<open>i\<close> on. The state is the page list
  of the merged document and the pages reported as skipped so far, each as the number of
  its file and its index.
\<close>

fun processFiles ::
  "'p pdf_lib \<Rightarrow> bytes list \<Rightarrow> nat \<Rightarrow> 'p list \<Rightarrow> (nat \<times> nat) list
     \<Rightarrow> (merge_error + 'p list) \<times> (nat \<times> nat) list" where
  "processFiles lib [] i merged skipped = (Inr merged, skipped)"
| "processFiles lib (buffer # buffers) i merged skipped =
     (if lib_timerFirst lib buffer then (Inl (TooLargeOrComplex (i + 1)), skipped)
      else case lib_load lib mergeLoadOptions buffer of
             Inl message \<Rightarrow> (Inl (classifyLoadError (i + 1) message), skipped)
           | Inr currentPdf \<Rightarrow>
               (let (allCopiedPages, skippedHere) = copyInBatches currentPdf (length buffer) 0
                in processFiles lib buffers (i + 1) (merged @ allCopiedPages)
                     (skipped @ map (\<lambda>idx. (i + 1, idx)) skippedHere)))"

text \<open>
  The save of the merged document and the validation of the saved bytes: a strict
  re-load, the structure check, and the comparison of the page counts.
\<close>

definition saveAndValidate :: "'p pdf_lib \<Rightarrow> 'p list \<Rightarrow> merge_error + bytes" where
  "saveAndValidate lib mergedPdf =
     (let totalPages = length mergedPdf in
      case lib_save lib mergeSaveOptions mergedPdf of
        None \<Rightarrow> Inl MergedSaveFailed
      | Some savedPdf \<Rightarrow>
          (case lib_load lib validationLoadOptions savedPdf of
             Inl message \<Rightarrow> Inl GeneratedCorrupted
           | Inr validationPdf \<Rightarrow>
               (let validationPageCount = length (src_pages validationPdf) in
                if validatePDFStructure savedPdf \<noteq> None then Inl GeneratedCorrupted
                else if validationPageCount \<noteq> totalPages then Inl GeneratedCorrupted
                else Inr savedPdf)))"

text \<open>
  \<open>mergeRun\<close> is the whole call with what it writes to the console about skipped pages;
  \<open>mergePDFs\<close> is what the caller receives. The bookmark pass only writes to the
  console and swallows its own errors, so the flag \<open>addBookmarks\<close> does not enter.
\<close>

definition mergeRun :: "'p pdf_lib \<Rightarrow> bytes list \<Rightarrow> (merge_error + bytes) \<times> (nat \<times> nat) list" where
  "mergeRun lib pdfBuffers =
     (if pdfBuffers = [] then (Inl NoFilesProvided, [])
      else if length pdfBuffers = 1 then (Inl AtLeastTwoRequired, [])
      else if sum_list (map length pdfBuffers) > 500 * megabyte then (Inl TotalSizeExceeded, [])
      else case processFiles lib pdfBuffers 0 [] [] of
             (Inl e, skipped) \<Rightarrow> (Inl e, skipped)
           | (Inr mergedPdf, skipped) \<Rightarrow> (saveAndValidate lib mergedPdf, skipped))"

definition mergePDFs :: "'p pdf_lib \<Rightarrow> bytes list \<Rightarrow> merge_error + bytes" where
  "mergePDFs lib pdfBuffers = fst (mergeRun lib pdfBuffers)"

definition skippedPages :: "'p pdf_lib \<Rightarrow> bytes list \<Rightarrow> (nat \<times> nat) list" where
  "skippedPages lib pdfBuffers = snd (mergeRun lib pdfBuffers)"

section \<open>CompressionAdvisor: compressPDF\<close>

text \<open>
  The library as compress sees it, over an opaque type of document states:
  \<open>PDFDocument.load\<close> of the input (\<open>None\<close> when it throws); the metadata setters, whose
  errors the service catches; the rebuild of the document into a fresh one by
  \<open>create\<close>, \<open>copyPages\<close> and \<open>addPage\<close> (\<open>None\<close> when it throws); \<open>save\<close> under given
  settings, with the bytes (\<open>None\<close> when it throws) and the state of the document
  afterwards; and whether \<open>PDFDocument.load\<close> accepts the bytes produced.
\<close>

record 'd compress_lib =
  cl_load :: "bytes \<Rightarrow> 'd option"
  cl_removeMetadata :: "'d \<Rightarrow> 'd"
  cl_rebuild :: "'d \<Rightarrow> 'd option"
  cl_save :: "save_options \<Rightarrow> 'd \<Rightarrow> bytes option \<times> 'd"
  cl_reloads :: "bytes \<Rightarrow> bool"

record compression_data =
  cd_compressionLevel :: string
  cd_removeMetadata :: bool

record compression_settings =
  cs_useObjectStreams :: bool
  cs_objectsPerTick :: nat
  cs_compress :: bool
  cs_description :: string

datatype compress_error = CompressLoadFailed | FallbackSaveFailed | CompressionCorrupted

text \<open>
  \<open>settings[level] || settings.medium\<close>, for the four tier names and for a name that is
  no property of the table.
\<close>

definition getCompressionSettings :: "string \<Rightarrow> compression_settings" where
  "getCompressionSettings level =
     (if level = ''low''
      then \<lparr> cs_useObjectStreams = False, cs_objectsPerTick = 100, cs_compress = True,
             cs_description = ''Minimal compression, preserves maximum quality'' \<rparr>
      else if level = ''high''
      then \<lparr> cs_useObjectStreams = True, cs_objectsPerTick = 10, cs_compress = True,
             cs_description = ''Strong compression, slight quality reduction'' \<rparr>
      else if level = ''maximum''
      then \<lparr> cs_useObjectStreams = False, cs_objectsPerTick = 1, cs_compress = True,
             cs_description = ''Maximum compression, quality may be affected'' \<rparr>
      else \<lparr> cs_useObjectStreams = True, cs_objectsPerTick = 25, cs_compress = True,
             cs_description = ''Balanced compression with good quality'' \<rparr>)"

definition primarySettings :: "string \<Rightarrow> save_options" where
  "primarySettings level =
     (let compressionSettings = getCompressionSettings level in
      \<lparr> useObjectStreams = cs_useObjectStreams compressionSettings, addDefaultPage = False,
        objectsPerTick = cs_objectsPerTick compressionSettings, updateFieldAppearances = False,
        compress = cs_compress compressionSettings \<rparr>)"

definition alternativeSettings :: "save_options list" where
  "alternativeSettings =
     [\<lparr> useObjectStreams = False, addDefaultPage = False, objectsPerTick = 5,
        updateFieldAppearances = False, compress = True \<rparr>,
      \<lparr> useObjectStreams = True, addDefaultPage = False, objectsPerTick = 1,
        updateFieldAppearances = False, compress = True \<rparr>,
      \<lparr> useObjectStreams = False, addDefaultPage = False, objectsPerTick = 1,
        updateFieldAppearances = False, compress = True \<rparr>]"

definition basicSettings :: save_options where
  "basicSettings = \<lparr> useObjectStreams = False, addDefaultPage = False, objectsPerTick = 50,
                      updateFieldAppearances = False, compress = True \<rparr>"

text \<open>
  The save profiles of a tier in the order the source tries them: the primary attempt,
  then, for \<open>high\<close> and \<open>maximum\<close>, the alternatives.
\<close>

definition profilesFor :: "string \<Rightarrow> save_options list" where
  "profilesFor level =
     primarySettings level #
       (if level = ''high'' \<or> level = ''maximum'' then alternativeSettings else [])"

text \<open>
  One attempt after the other on the same document, with \<open>bestCompressed\<close> as the
  accumulator: a result replaces it only when it is strictly shorter
  (\<open>result.length < bestSize\<close>, \<open>bestSize\<close> being \<open>Infinity\<close> at first); an attempt that throws
  changes nothing.
\<close>

fun tryProfiles ::
  "'d compress_lib \<Rightarrow> save_options list \<Rightarrow> 'd \<Rightarrow> bytes option \<Rightarrow> bytes option \<times> 'd" where
  "tryProfiles lib [] doc bestCompressed = (bestCompressed, doc)"
| "tryProfiles lib (settings # rest) doc bestCompressed =
     (case cl_save lib settings doc of
        (None, doc') \<Rightarrow> tryProfiles lib rest doc' bestCompressed
      | (Some result, doc') \<Rightarrow>
          tryProfiles lib rest doc'
            (case bestCompressed of
               None \<Rightarrow> Some result
             | Some best \<Rightarrow> (if length result < length best then Some result else Some best)))"

text \<open>
  The document that is saved: the loaded document, without its metadata when that is
  asked for, and for the tier \<open>maximum\<close> rebuilt into a fresh document when the rebuild
  does not throw.
\<close>

definition prepareDocument :: "'d compress_lib \<Rightarrow> bytes \<Rightarrow> compression_data \<Rightarrow> 'd option" where
  "prepareDocument lib pdfBuffer compressionData =
     (case cl_load lib pdfBuffer of
        None \<Rightarrow> None
      | Some loadedDoc \<Rightarrow>
          (let pdfDoc = (if cd_removeMetadata compressionData
                         then cl_removeMetadata lib loadedDoc else loadedDoc)
           in Some (if cd_compressionLevel compressionData = ''maximum''
                    then (case cl_rebuild lib pdfDoc of Some fresh \<Rightarrow> fresh | None \<Rightarrow> pdfDoc)
                    else pdfDoc)))"

definition compressPDF :: "'d compress_lib \<Rightarrow> bytes \<Rightarrow> compression_data \<Rightarrow> compress_error + bytes" where
  "compressPDF lib pdfBuffer compressionData =
     (case prepareDocument lib pdfBuffer compressionData of
        None \<Rightarrow> Inl CompressLoadFailed
      | Some finalDoc \<Rightarrow>
          (let (tried, docAfter) =
                 tryProfiles lib (profilesFor (cd_compressionLevel compressionData)) finalDoc None;
               bestCompressed = (case tried of
                                   Some best \<Rightarrow> Some best
                                 | None \<Rightarrow> fst (cl_save lib basicSettings docAfter))
           in case bestCompressed of
                None \<Rightarrow> Inl FallbackSaveFailed
              | Some best \<Rightarrow> (if cl_reloads lib best then Inr best else Inl CompressionCorrupted)))"

text \<open>
  What the successive calls of \<open>save\<close> return when the profiles are tried in order on a
  document, \<open>None\<close> for a call that throws.
\<close>

fun attemptResults :: "'d compress_lib \<Rightarrow> save_options list \<Rightarrow> 'd \<Rightarrow> bytes option list" where
  "attemptResults lib [] doc = []"
| "attemptResults lib (settings # rest) doc =
     (case cl_save lib settings doc of (result, doc') \<Rightarrow> result # attemptResults lib rest doc')"

section \<open>Sample behaviours of the library\<close>

text \<open>
  A library for merge over pages named by strings. The buffer \<open>A\<close> holds two pages of
  which the second cannot be copied, neither in a batch nor alone; \<open>A1\<close> holds the first
  of them only; \<open>B\<close> holds one page. A merged document is saved as a header, the names
  of its pages and a trailer, and the saved form of the pages \<open>a1\<close>, \<open>b1\<close> loads again
  as a document of these two pages.
\<close>

definition sampleSaved :: "string list \<Rightarrow> bytes" where
  "sampleSaved ps = ''%PDF-1.7 /Type /Catalog /Type /Pages '' @ concat ps @ '' %%EOF''"

definition sampleMergeLib :: "string pdf_lib" where
  "sampleMergeLib =
     \<lparr> lib_load = (\<lambda>opts b.
         if b = ''A'' then Inr \<lparr> src_pages = [''a1'', ''a2''], src_copyFails = (\<lambda>idx. 1 \<in> set idx) \<rparr>
         else if b = ''A1'' then Inr \<lparr> src_pages = [''a1''], src_copyFails = (\<lambda>idx. False) \<rparr>
         else if b = ''B'' then Inr \<lparr> src_pages = [''b1''], src_copyFails = (\<lambda>idx. False) \<rparr>
         else if b = sampleSaved [''a1'', ''b1'']
         then Inr \<lparr> src_pages = [''a1'', ''b1''], src_copyFails = (\<lambda>idx. False) \<rparr>
         else Inl ''Invalid PDF structure''),
       lib_timerFirst = (\<lambda>b. False),
       lib_save = (\<lambda>opts ps. Some (sampleSaved ps)) \<rparr>"

text \<open>
  Text primitives that accept the texts made of printable ASCII characters.
\<close>

definition asciiTextLib :: text_lib where
  "asciiTextLib =
     \<lparr> tl_measures = list_all (\<lambda>c. 32 \<le> (of_char c :: nat) \<and> (of_char c :: nat) \<le> 126),
       tl_draws = list_all (\<lambda>c. 32 \<le> (of_char c :: nat) \<and> (of_char c :: nat) \<le> 126) \<rparr>"


definition libStreamsLarger :: "unit compress_lib" where
  "libStreamsLarger =
     \<lparr> cl_load = (\<lambda>b. Some ()),
       cl_removeMetadata = (\<lambda>d. d),
       cl_rebuild = (\<lambda>d. Some d),
       cl_save = (\<lambda>s d. (Some (if useObjectStreams s then ''%PDF-1.7 with object streams''
                                  else ''%PDF-1.7 plain''), d)),
       cl_reloads = (\<lambda>b. True) \<rparr>"

section \<open>Properties of the string functions\<close>



















section \<open>ColorCodec\<close>

lemma hexDigitValue_table:
  "map hexDigitValue ''0123456789abcdefABCDEF''
     = [0, 1, 2, 3, 4, 5, 6, 7, 8, 9, 10, 11, 12, 13, 14, 15, 10, 11, 12, 13, 14, 15]"
  by (simp add: hexDigitValue_def)

lemma hexDigitValue_le: "hexDigitValue c \<le> 15"
  by (auto simp: hexDigitValue_def Let_def)

lemma parseHexPair_le: "parseHexPair a b \<le> 255"
  using hexDigitValue_le [of a] hexDigitValue_le [of b] by (simp add: parseHexPair_def)

lemma hexPattern_plain:
  "list_all isHexDigit [a, b, c, d, e, f] \<Longrightarrow>
     hexPattern [a, b, c, d, e, f] = Some ((a, b), (c, d), (e, f))"
  unfolding hexPattern_def Let_def by (cases "a = CHR ''#''") (simp_all add: isHexDigit_def)

lemma hexPattern_hash:
  "list_all isHexDigit [a, b, c, d, e, f] \<Longrightarrow>
     hexPattern (CHR ''#'' # [a, b, c, d, e, f]) = Some ((a, b), (c, d), (e, f))"
  unfolding hexPattern_def Let_def by simp

lemma six_caseD:
  "(case body of [c1, c2, c3, c4, c5, c6] \<Rightarrow> F c1 c2 c3 c4 c5 c6 | _ \<Rightarrow> None) = Some v \<Longrightarrow>
     \<exists>c1 c2 c3 c4 c5 c6. body = [c1, c2, c3, c4, c5, c6] \<and> F c1 c2 c3 c4 c5 c6 = Some v"
  by (simp split: list.splits)

lemma hexPattern_SomeD:
  assumes "hexPattern hex = Some ((a, b), (c, d), (e, f))"
  shows "(hex = [a, b, c, d, e, f] \<or> hex = CHR ''#'' # [a, b, c, d, e, f])
           \<and> list_all isHexDigit [a, b, c, d, e, f]"
proof -
  define body where "body = (case hex of c # cs \<Rightarrow> (if c = CHR ''#'' then cs else hex) | [] \<Rightarrow> hex)"
  have "(case body of [c1, c2, c3, c4, c5, c6] \<Rightarrow>
          (if list_all isHexDigit body then Some ((c1, c2), (c3, c4), (c5, c6)) else None)
        | _ \<Rightarrow> None) = Some ((a, b), (c, d), (e, f))"
    using assms unfolding hexPattern_def Let_def body_def .
  from six_caseD [OF this] obtain c1 c2 c3 c4 c5 c6 where
    b: "body = [c1, c2, c3, c4, c5, c6]" and
    s: "(if list_all isHexDigit body then Some ((c1, c2), (c3, c4), (c5, c6)) else None)
          = Some ((a, b), (c, d), (e, f))"
    by blast
  from s have h: "list_all isHexDigit body"
    and eq: "c1 = a" "c2 = b" "c3 = c" "c4 = d" "c5 = e" "c6 = f"
    by (simp_all split: if_splits)
  from b eq have body: "body = [a, b, c, d, e, f]" by simp
  have "hex = body \<or> hex = CHR ''#'' # body"
    unfolding body_def by (cases hex) auto
  with body h show ?thesis by simp
qed

lemma hexToRgb_component_range:
  "0 \<le> (of_nat (parseHexPair a b) :: rat) / 255 \<and> (of_nat (parseHexPair a b) :: rat) / 255 \<le> 1"
proof -
  have "(of_nat (parseHexPair a b) :: rat) \<le> of_nat 255"
    using parseHexPair_le [of a b] by (simp only: of_nat_le_iff)
  then show ?thesis by simp
qed

text \<open>
  C10. A string that is not an optional \<open>#\<close> followed by exactly six hexadecimal digits
  yields black; a string of that form yields, for each of its three pairs of digits, the
  value of the pair in base 16 divided by 255; so every component returned lies between
  0 and 1.
\<close>

theorem hexToRgb_black_or_scaled:
  "(\<forall>a b c d e f.
      (hex = [a, b, c, d, e, f] \<or> hex = CHR ''#'' # [a, b, c, d, e, f])
      \<and> list_all isHexDigit [a, b, c, d, e, f]
      \<longrightarrow> hexToRgb hex =
            \<lparr> rgb_r = of_nat (16 * hexDigitValue a + hexDigitValue b) / 255,
              rgb_g = of_nat (16 * hexDigitValue c + hexDigitValue d) / 255,
              rgb_b = of_nat (16 * hexDigitValue e + hexDigitValue f) / 255 \<rparr>)
   \<and> ((\<nexists>a b c d e f.
         (hex = [a, b, c, d, e, f] \<or> hex = CHR ''#'' # [a, b, c, d, e, f])
         \<and> list_all isHexDigit [a, b, c, d, e, f])
       \<longrightarrow> hexToRgb hex = \<lparr> rgb_r = 0, rgb_g = 0, rgb_b = 0 \<rparr>)
   \<and> 0 \<le> rgb_r (hexToRgb hex) \<and> rgb_r (hexToRgb hex) \<le> 1
   \<and> 0 \<le> rgb_g (hexToRgb hex) \<and> rgb_g (hexToRgb hex) \<le> 1
   \<and> 0 \<le> rgb_b (hexToRgb hex) \<and> rgb_b (hexToRgb hex) \<le> 1"
proof (intro conjI allI impI)
  fix a b c d e f
  assume "(hex = [a, b, c, d, e, f] \<or> hex = CHR ''#'' # [a, b, c, d, e, f])
            \<and> list_all isHexDigit [a, b, c, d, e, f]"
  then have "hexPattern hex = Some ((a, b), (c, d), (e, f))"
    using hexPattern_plain [of a b c d e f] hexPattern_hash [of a b c d e f] by blast
  then show "hexToRgb hex =
            \<lparr> rgb_r = of_nat (16 * hexDigitValue a + hexDigitValue b) / 255,
              rgb_g = of_nat (16 * hexDigitValue c + hexDigitValue d) / 255,
              rgb_b = of_nat (16 * hexDigitValue e + hexDigitValue f) / 255 \<rparr>"
    by (simp add: hexToRgb_def parseHexPair_def)
next
  assume no: "\<nexists>a b c d e f.
         (hex = [a, b, c, d, e, f] \<or> hex = CHR ''#'' # [a, b, c, d, e, f])
         \<and> list_all isHexDigit [a, b, c, d, e, f]"
  have "hexPattern hex = None"
  proof (cases "hexPattern hex")
    case None
    then show ?thesis .
  next
    case (Some m)
    obtain a b c d e f where "m = ((a, b), (c, d), (e, f))"
      by (cases m) auto
    with Some have "hexPattern hex = Some ((a, b), (c, d), (e, f))" by simp
    from hexPattern_SomeD [OF this]
    have "\<exists>a b c d e f. (hex = [a, b, c, d, e, f] \<or> hex = CHR ''#'' # [a, b, c, d, e, f])
           \<and> list_all isHexDigit [a, b, c, d, e, f]"
      by (intro exI)
    from no this show ?thesis by (rule notE)
  qed
  then show "hexToRgb hex = \<lparr> rgb_r = 0, rgb_g = 0, rgb_b = 0 \<rparr>"
    by (simp add: hexToRgb_def)
next
  show "0 \<le> rgb_r (hexToRgb hex)" "rgb_r (hexToRgb hex) \<le> 1"
       "0 \<le> rgb_g (hexToRgb hex)" "rgb_g (hexToRgb hex) \<le> 1"
       "0 \<le> rgb_b (hexToRgb hex)" "rgb_b (hexToRgb hex) \<le> 1"
    using hexToRgb_component_range
    by (auto simp: hexToRgb_def split: option.splits prod.splits)
qed

theorem hexToRgb_black_or_scaled_witness:
  "hexToRgb ''#FF0080'' = \<lparr> rgb_r = 1, rgb_g = 0, rgb_b = 128 / 255 \<rparr>
   \<and> hexToRgb ''ff0080'' = \<lparr> rgb_r = 1, rgb_g = 0, rgb_b = 128 / 255 \<rparr>
   \<and> hexToRgb ''#12345'' = \<lparr> rgb_r = 0, rgb_g = 0, rgb_b = 0 \<rparr>"
proof -
  have h1: "list_all isHexDigit ''FF0080''" and h2: "list_all isHexDigit ''ff0080''"
    by (simp_all add: isHexDigit_def)
  have "hexToRgb ''#FF0080'' = \<lparr> rgb_r = 1, rgb_g = 0, rgb_b = 128 / 255 \<rparr>"
    using hexToRgb_black_or_scaled [of "''#FF0080''", THEN conjunct1, rule_format,
        of "CHR ''F''" "CHR ''F''" "CHR ''0''" "CHR ''0''" "CHR ''8''" "CHR ''0''"] h1
    by (simp add: hexDigitValue_def)
  moreover have "hexToRgb ''ff0080'' = \<lparr> rgb_r = 1, rgb_g = 0, rgb_b = 128 / 255 \<rparr>"
    using hexToRgb_black_or_scaled [of "''ff0080''", THEN conjunct1, rule_format,
        of "CHR ''f''" "CHR ''f''" "CHR ''0''" "CHR ''0''" "CHR ''8''" "CHR ''0''"] h2
    by (simp add: hexDigitValue_def)
  moreover have "hexToRgb ''#12345'' = \<lparr> rgb_r = 0, rgb_g = 0, rgb_b = 0 \<rparr>"
  proof -
    have "\<nexists>a b c d e f.
         (''#12345'' = [a, b, c, d, e, f] \<or> ''#12345'' = CHR ''#'' # [a, b, c, d, e, f])
         \<and> list_all isHexDigit [a, b, c, d, e, f]"
      by (simp add: isHexDigit_def)
    with hexToRgb_black_or_scaled [of "''#12345''", THEN conjunct2, THEN conjunct1]
    show ?thesis by (rule mp)
  qed
  ultimately show ?thesis by blast
qed

section \<open>TemplateEngine\<close>



section \<open>SplitPlanner\<close>

lemma splitEvery_done: "\<not> i < totalPages \<Longrightarrow> splitEvery totalPages fileName everyN i partNumber = []"
  by (subst splitEvery.simps) (simp add: Let_def)

lemma splitEvery_step:
  "i < totalPages \<Longrightarrow>
     map sr_buffer (splitEvery totalPages fileName everyN i partNumber)
       = [i..<min (i + nat (max 1 everyN)) totalPages]
         # map sr_buffer (splitEvery totalPages fileName everyN (i + nat (max 1 everyN)) (partNumber + 1))"
  by (subst splitEvery.simps) (simp add: Let_def)

lemma splitEvery_concat:
  "concat (map sr_buffer (splitEvery totalPages fileName everyN i partNumber)) = [i..<totalPages]"
proof (induction totalPages fileName everyN i partNumber rule: splitEvery.induct)
  case (1 totalPages fileName everyN i partNumber)
  define n where "n = nat (max 1 everyN)"
  show ?case
  proof (cases "i < totalPages")
    case False
    then show ?thesis by (simp add: splitEvery_done)
  next
    case True
    have ih: "concat (map sr_buffer (splitEvery totalPages fileName everyN (i + n) (partNumber + 1)))
                = [i + n..<totalPages]"
      using 1 [OF n_def True refl refl refl] by (simp add: n_def)
    show ?thesis
    proof (cases "i + n \<le> totalPages")
      case True
      then have "[i..<totalPages] = [i..<i + n] @ [i + n..<totalPages]"
        by (metis le_add1 upt_add_eq_append le_Suc_ex)
      with \<open>i < totalPages\<close> True ih show ?thesis
        by (simp add: splitEvery_step [OF \<open>i < totalPages\<close>] n_def [symmetric] min_def)
    next
      case False
      with \<open>i < totalPages\<close> ih show ?thesis
        by (simp add: splitEvery_step [OF \<open>i < totalPages\<close>] n_def [symmetric] min_def)
    qed
  qed
qed

lemma splitEvery_nth:
  "k < length (splitEvery totalPages fileName everyN i partNumber) \<Longrightarrow>
     i + k * nat (max 1 everyN) < totalPages \<and>
     sr_buffer (splitEvery totalPages fileName everyN i partNumber ! k)
       = [i + k * nat (max 1 everyN) ..< min (i + k * nat (max 1 everyN) + nat (max 1 everyN)) totalPages]"
proof (induction k arbitrary: i partNumber)
  case 0
  then have lt: "i < totalPages" using splitEvery_done [of i totalPages] by fastforce
  from 0 have "sr_buffer (splitEvery totalPages fileName everyN i partNumber ! 0)
                 = map sr_buffer (splitEvery totalPages fileName everyN i partNumber) ! 0"
    by simp
  with lt show ?case by (simp add: splitEvery_step [OF lt])
next
  case (Suc k)
  then have lt: "i < totalPages" using splitEvery_done [of i totalPages] by fastforce
  let ?n = "nat (max 1 everyN)"
  have len: "length (splitEvery totalPages fileName everyN i partNumber)
               = Suc (length (splitEvery totalPages fileName everyN (i + ?n) (partNumber + 1)))"
    using arg_cong [OF splitEvery_step [OF lt, of fileName everyN partNumber], of length] by simp
  with Suc.prems have k: "k < length (splitEvery totalPages fileName everyN (i + ?n) (partNumber + 1))"
    by simp
  have "sr_buffer (splitEvery totalPages fileName everyN i partNumber ! Suc k)
          = map sr_buffer (splitEvery totalPages fileName everyN i partNumber) ! Suc k"
    using Suc.prems by simp
  also have "\<dots> = map sr_buffer (splitEvery totalPages fileName everyN (i + ?n) (partNumber + 1)) ! k"
    by (simp add: splitEvery_step [OF lt])
  also have "\<dots> = sr_buffer (splitEvery totalPages fileName everyN (i + ?n) (partNumber + 1) ! k)"
    using k by simp
  finally show ?case using Suc.IH [OF k] by (simp add: algebra_simps)
qed

lemma splitEvery_length_ge:
  "i + k * nat (max 1 everyN) < totalPages \<Longrightarrow>
     k < length (splitEvery totalPages fileName everyN i partNumber)"
proof (induction k arbitrary: i partNumber)
  case 0
  then have lt: "i < totalPages" by simp
  show ?case
    using arg_cong [OF splitEvery_step [OF lt, of fileName everyN partNumber], of length] by simp
next
  case (Suc k)
  let ?n = "nat (max 1 everyN)"
  from Suc.prems have lt: "i < totalPages" by simp
  from Suc.prems have "(i + ?n) + k * ?n < totalPages" by (simp add: algebra_simps)
  from Suc.IH [OF this]
  have "k < length (splitEvery totalPages fileName everyN (i + ?n) (partNumber + 1))" .
  then show ?case
    using arg_cong [OF splitEvery_step [OF lt, of fileName everyN partNumber], of length] by simp
qed


lemma last_chunk_size:
  fixes P N k :: nat
  assumes "k * N < P" "P \<le> k * N + N"
  shows "P - k * N = (if P mod N = 0 then N else P mod N)"
proof (cases "P = k * N + N")
  case True
  then have "P mod N = 0" by simp
  with True show ?thesis by simp
next
  case False
  define r where "r = P - k * N"
  from assms False have r: "0 < r" "r < N" and P: "P = k * N + r" by (simp_all add: r_def)
  from P r have "P mod N = r" by simp
  with r show ?thesis by (simp add: r_def)
qed

text \<open>
  C6. For a document of \<open>P \<ge> 1\<close> pages and a requested chunk size that is a number, with
  \<open>N = max 1 size\<close>, the split of type \<open>every\<close> succeeds; its groups, concatenated, are
  exactly the page indices \<open>0, \<dots>, P - 1\<close> in order; group \<open>k\<close> is the run of indices from
  \<open>k * N\<close> up to \<open>min (k * N + N) P\<close>, so the groups are contiguous and do not overlap;
  every group but the last has \<open>N\<close> pages, and the last has \<open>P mod N\<close> pages, or \<open>N\<close> when
  \<open>P mod N = 0\<close>.
\<close>

theorem splitPDF_every_chunks:
  assumes "1 \<le> P" and "sd_splitType d = ''every''" and "sd_everyNPages d = Some everyN"
  shows "\<exists>results. splitPDF (Some P) d = Inr results
     \<and> concat (map sr_buffer results) = [0..<P]
     \<and> (\<forall>k<length results.
           sr_buffer (results ! k)
             = [k * nat (max 1 everyN)
                ..< min (k * nat (max 1 everyN) + nat (max 1 everyN)) P]
           \<and> k * nat (max 1 everyN) < P)
     \<and> (\<forall>k. Suc k < length results
           \<longrightarrow> length (sr_buffer (results ! k)) = nat (max 1 everyN))
     \<and> length (sr_buffer (last results))
         = (if P mod nat (max 1 everyN) = 0 then nat (max 1 everyN)
            else P mod nat (max 1 everyN))"
proof -
  define N where "N = nat (max 1 everyN)"
  define results where "results = splitEvery P (sd_fileName d) everyN 0 1"
  have pos: "0 < P" using assms(1) by simp
  have "0 + 0 * N < P" using pos by simp
  then have ne: "0 < length results"
    unfolding results_def N_def by (rule splitEvery_length_ge)
  then have nonempty: "results \<noteq> []" by auto
  have split: "splitPDF (Some P) d = Inr results"
    using assms(2, 3) nonempty by (simp add: splitPDF_def results_def Let_def)
  have cat: "concat (map sr_buffer results) = [0..<P]"
    unfolding results_def by (rule splitEvery_concat)
  have nth: "sr_buffer (results ! k) = [k * N ..< min (k * N + N) P] \<and> k * N < P"
    if "k < length results" for k
    using splitEvery_nth [of k P "sd_fileName d" everyN 0 1] that
    by (simp add: results_def N_def)
  have full: "length (sr_buffer (results ! k)) = N" if "Suc k < length results" for k
  proof -
    from that have "k < length results" by simp
    from nth [OF this] have b: "sr_buffer (results ! k) = [k * N ..< min (k * N + N) P]" by simp
    from nth [OF that] have "Suc k * N < P" by simp
    then have "k * N + N \<le> P" by simp
    with b show ?thesis by (simp add: min_def)
  qed
  have lastc: "length (sr_buffer (last results)) = (if P mod N = 0 then N else P mod N)"
  proof -
    define k where "k = length results - 1"
    from ne have k: "k < length results" and sk: "\<not> Suc k < length results" by (simp_all add: k_def)
    have "last results = results ! k" using nonempty by (simp add: last_conv_nth k_def)
    with nth [OF k] have b: "sr_buffer (last results) = [k * N ..< min (k * N + N) P]"
      and lt: "k * N < P" by simp_all
    have "\<not> 0 + Suc k * N < P"
      using sk splitEvery_length_ge [of 0 "Suc k" everyN P "sd_fileName d" 1]
      by (auto simp: results_def N_def)
    then have le: "P \<le> k * N + N" by simp
    from b le have "length (sr_buffer (last results)) = P - k * N" by (simp add: min_def)
    with last_chunk_size [OF lt le] show ?thesis by simp
  qed
  show ?thesis
    using split cat nth full lastc unfolding N_def by blast
qed


theorem splitPDF_every_chunks_witness:
  "splitPDF (Some 7)
      \<lparr> sd_splitType = ''every'', sd_pages = [], sd_ranges = [], sd_everyNPages = Some 3,
        sd_fileName = ''document'' \<rparr>
     = Inr [\<lparr> sr_buffer = [0, 1, 2], sr_filename = ''document_part_1.pdf'',
              sr_pageRange = ''Pages 1-3'', sr_pageCount = Some 3 \<rparr>,
            \<lparr> sr_buffer = [3, 4, 5], sr_filename = ''document_part_2.pdf'',
              sr_pageRange = ''Pages 4-6'', sr_pageCount = Some 3 \<rparr>,
            \<lparr> sr_buffer = [6], sr_filename = ''document_part_3.pdf'',
              sr_pageRange = ''Pages 7-7'', sr_pageCount = Some 1 \<rparr>]"
proof -
  let ?d = "\<lparr> sd_splitType = ''every'', sd_pages = [], sd_ranges = [], sd_everyNPages = Some 3,
        sd_fileName = ''document'' \<rparr>"
  have "(1::nat) \<le> 7" and "sd_splitType ?d = ''every''" and "sd_everyNPages ?d = Some 3"
    by simp_all
  from splitPDF_every_chunks [OF this] obtain results where
    r: "splitPDF (Some 7) ?d = Inr results" by blast
  then have "results = splitEvery 7 ''document'' 3 0 1"
    by (simp add: splitPDF_def Let_def split: if_splits)
  also have "\<dots> = [\<lparr> sr_buffer = [0, 1, 2], sr_filename = ''document_part_1.pdf'',
              sr_pageRange = ''Pages 1-3'', sr_pageCount = Some 3 \<rparr>,
            \<lparr> sr_buffer = [3, 4, 5], sr_filename = ''document_part_2.pdf'',
              sr_pageRange = ''Pages 4-6'', sr_pageCount = Some 3 \<rparr>,
            \<lparr> sr_buffer = [6], sr_filename = ''document_part_3.pdf'',
              sr_pageRange = ''Pages 7-7'', sr_pageCount = Some 1 \<rparr>]"
    by (simp add: splitEvery.simps Let_def upt_rec showInt_def showNat.simps digitChar_def)
  finally show ?thesis using r by simp
qed

lemma splitByPages_buffers:
  "map sr_buffer (splitByPages totalPages fileName ps)
     = map (\<lambda>p. [nat (p - 1)]) (filter (\<lambda>p. 0 < p \<and> p \<le> int totalPages) (List.map_filter id ps))"
proof (induction ps)
  case Nil
  then show ?case by (simp add: List.map_filter_simps)
next
  case (Cons q qs)
  then show ?case by (cases q) (simp_all add: List.map_filter_simps)
qed

lemma splitByPages_single:
  "r \<in> set (splitByPages totalPages fileName ps) \<Longrightarrow> sr_pageCount r = Some 1 \<and> length (sr_buffer r) = 1"
proof (induction ps)
  case Nil
  then show ?case by simp
next
  case (Cons q qs)
  then show ?case by (cases q) (auto split: if_splits)
qed

lemma splitPDF_never_empty: "splitPDF loaded d = Inr results \<Longrightarrow> results \<noteq> []"
  by (auto simp: splitPDF_def Let_def split: option.splits if_splits sum.splits)

text \<open>
  C7. In a split of type \<open>pages\<close> the outputs are the single pages requested, in the
  order of the request and with its repetitions, without the entries that are no number,
  not above 0 or above the page count; when no entry is left the split fails, and no
  split of any type returns an empty list of outputs.
\<close>

theorem splitPDF_pages_kept_in_order:
  "(sd_splitType d = ''pages'' \<longrightarrow>
      (if filter (\<lambda>p. 0 < p \<and> p \<le> int P) (List.map_filter id (sd_pages d)) = []
       then splitPDF (Some P) d = Inl NoValidPagesOrRanges
       else \<exists>results. splitPDF (Some P) d = Inr results
              \<and> map sr_buffer results
                  = map (\<lambda>p. [nat (p - 1)])
                      (filter (\<lambda>p. 0 < p \<and> p \<le> int P) (List.map_filter id (sd_pages d)))
              \<and> (\<forall>r\<in>set results. sr_pageCount r = Some 1)))
   \<and> (\<forall>results. splitPDF loaded d = Inr results \<longrightarrow> results \<noteq> [])"
proof (intro conjI impI allI)
  assume t: "sd_splitType d = ''pages''"
  define results where "results = splitByPages P (sd_fileName d) (sd_pages d)"
  have bufs: "map sr_buffer results
                = map (\<lambda>p. [nat (p - 1)])
                    (filter (\<lambda>p. 0 < p \<and> p \<le> int P) (List.map_filter id (sd_pages d)))"
    unfolding results_def by (rule splitByPages_buffers)
  have one: "\<forall>r\<in>set results. sr_pageCount r = Some 1"
    unfolding results_def using splitByPages_single by blast
  show "if filter (\<lambda>p. 0 < p \<and> p \<le> int P) (List.map_filter id (sd_pages d)) = []
       then splitPDF (Some P) d = Inl NoValidPagesOrRanges
       else \<exists>results. splitPDF (Some P) d = Inr results
              \<and> map sr_buffer results
                  = map (\<lambda>p. [nat (p - 1)])
                      (filter (\<lambda>p. 0 < p \<and> p \<le> int P) (List.map_filter id (sd_pages d)))
              \<and> (\<forall>r\<in>set results. sr_pageCount r = Some 1)"
  proof (cases "filter (\<lambda>p. 0 < p \<and> p \<le> int P) (List.map_filter id (sd_pages d)) = []")
    case True
    with bufs have "results = []" by simp
    with t True show ?thesis by (simp add: splitPDF_def results_def Let_def)
  next
    case False
    with bufs have "results \<noteq> []" by auto
    with t have "splitPDF (Some P) d = Inr results" by (simp add: splitPDF_def results_def Let_def)
    with False bufs one show ?thesis by auto
  qed
next
  fix results
  assume "splitPDF loaded d = Inr results"
  then show "results \<noteq> []" by (rule splitPDF_never_empty)
qed

theorem splitPDF_pages_kept_in_order_witness:
  "map sr_buffer (projr (splitPDF (Some 5)
      \<lparr> sd_splitType = ''pages'', sd_pages = [Some 3, Some 0, Some 3, None, Some 9, Some 1],
        sd_ranges = [], sd_everyNPages = Some 1, sd_fileName = ''document'' \<rparr>)) = [[2], [2], [0]]
   \<and> splitPDF (Some 5)
      \<lparr> sd_splitType = ''pages'', sd_pages = [Some 0, Some 6, None],
        sd_ranges = [], sd_everyNPages = Some 1, sd_fileName = ''document'' \<rparr> = Inl NoValidPagesOrRanges"
  using splitPDF_pages_kept_in_order [of
      "\<lparr> sd_splitType = ''pages'', sd_pages = [Some 3, Some 0, Some 3, None, Some 9, Some 1],
        sd_ranges = [], sd_everyNPages = Some 1, sd_fileName = ''document'' \<rparr>" 5 None]
    splitPDF_pages_kept_in_order [of
      "\<lparr> sd_splitType = ''pages'', sd_pages = [Some 0, Some 6, None],
        sd_ranges = [], sd_everyNPages = Some 1, sd_fileName = ''document'' \<rparr>" 5 None]
  by (auto simp: List.map_filter_simps)

section \<open>AnnotationPipeline\<close>

text \<open>
  C4. The claim is that the annotation of headers and footers starts at page index
  \<open>max 0 (startPage - 1)\<close>. The loop starts at \<open>startPage - 1\<close> as it is: on a document of
  three pages, \<open>startPage = 0\<close> makes the first page read \<open>pages[-1]\<close>, which is
  \<open>undefined\<close>, and the call fails, whereas \<open>startPage = 2\<close> annotates the second and the
  third page.
\<close>

theorem addHeaderFooterToPDF_startPage_zero_fails:
  "addHeaderFooterToPDF (Some 3)
     \<lparr> hf_leftHeader = [], hf_middleHeader = [], hf_rightHeader = ''Page (x) of (y)'',
       hf_leftFooter = [], hf_middleFooter = [], hf_rightFooter = [],
       hf_startPage = Some 0, hf_coverWithWhite = False, hf_textColor = ''#000000'',
       hf_fontSize = Some 10 \<rparr>
     = Inl (PageUndefined (- 1))
   \<and> addHeaderFooterToPDF (Some 3)
     \<lparr> hf_leftHeader = [], hf_middleHeader = [], hf_rightHeader = ''Page (x) of (y)'',
       hf_leftFooter = [], hf_middleFooter = [], hf_rightFooter = [],
       hf_startPage = Some 2, hf_coverWithWhite = False, hf_textColor = ''#000000'',
       hf_fontSize = Some 10 \<rparr>
     = Inr [DrawText 1 ''Page 2 of 3'' AlignRight 750 10 \<lparr> rgb_r = 0, rgb_g = 0, rgb_b = 0 \<rparr>,
            DrawText 2 ''Page 3 of 3'' AlignRight 750 10 \<lparr> rgb_r = 0, rgb_g = 0, rgb_b = 0 \<rparr>]"
  by (simp add: addHeaderFooterToPDF_def annotateFrom.simps annotatePage_def slotText_def
        parsedOr_def headerY_def footerY_def processTemplate_def showInt_def showNat.simps
        digitChar_def hexToRgb_def hexPattern_def isHexDigit_def parseHexPair_def hexDigitValue_def)

text \<open>
  C3, as stated, fails: a font size of 500, an opacity of 0.05 and a rotation of 180
  degrees are drawn as they are, none of them moved into 12--100, 0.1--1.0 or -90--90.
\<close>

theorem addWatermarkToPDF_out_of_range_kept:
  "addWatermarkToPDF asciiTextLib (Some 1)
     \<lparr> wm_text = ''DRAFT'', wm_fontSize = Some 500, wm_opacity = Some (1 / 20),
       wm_color = ''#000000'', wm_rotation = Some 180, wm_position = ''center'',
       wm_startPage = Some 1, wm_endPage = Some 0 \<rparr>
     = Inr [DrawWatermark 0 ''DRAFT'' ''center'' 500 \<lparr> rgb_r = 0, rgb_g = 0, rgb_b = 0 \<rparr>
              (Some (1 / 20)) 180]"
  by (simp add: addWatermarkToPDF_def watermarkWindow_def watermarkSize_def watermarkRotation_def
        watermarkOpacity_def parsedOr_def upto.simps asciiTextLib_def
        hexToRgb_def hexPattern_def isHexDigit_def parseHexPair_def hexDigitValue_def)

text \<open>
  An opacity that does not parse to a number is handed on to \<open>drawText\<close> as \<open>NaN\<close>, and
  the request fails on the first page of the window.
\<close>

lemma addWatermarkToPDF_NaN_opacity:
  "addWatermarkToPDF asciiTextLib (Some 1)
     \<lparr> wm_text = ''DRAFT'', wm_fontSize = Some 48, wm_opacity = None,
       wm_color = ''#000000'', wm_rotation = Some 45, wm_position = ''center'',
       wm_startPage = Some 1, wm_endPage = Some 0 \<rparr>
     = Inl DrawTextRejected"
  by (simp add: addWatermarkToPDF_def watermarkWindow_def watermarkOpacity_def upto.simps
        asciiTextLib_def)

lemma watermarkWindow_in_range: "i \<in> set (watermarkWindow numPages w) \<Longrightarrow> i < numPages"
  by (auto simp: watermarkWindow_def Let_def split: option.splits if_splits)

lemma drawWatermarks_ok:
  assumes "tl_measures lib (wm_text w)" and "tl_draws lib (wm_text w)" and "wm_opacity w = Some x"
  shows "drawWatermarks lib w window
           = Inr (map (\<lambda>i. DrawWatermark i (wm_text w) (wm_position w)
                          (watermarkSize (wm_fontSize w)) (hexToRgb (wm_color w))
                          (Some (max 0 (min 1 x))) (watermarkRotation (wm_rotation w))) window)"
  using assms by (induction window) (simp_all add: watermarkOpacity_def)

text \<open>
  C3, amended. On a document that loads, with a text that the library measures and
  draws and an opacity that parses to a number, no value of the numeric fields of a
  watermark request makes the service fail, and every watermark is drawn on a page of
  the document. The opacity is moved into the range from 0 to 1 (values inside the
  range are kept). Font size and rotation are not moved into any range: a value that
  parses to an integer other than 0 is used as it is, and a value that does not parse
  is replaced by the default, 48 and 45.
\<close>

theorem addWatermarkToPDF_numeric_fields:
  assumes "tl_measures lib (wm_text w)" and "tl_draws lib (wm_text w)" and "wm_opacity w = Some x"
  shows "\<exists>ops. addWatermarkToPDF lib (Some numPages) w = Inr ops
     \<and> (\<forall>op\<in>set ops. \<exists>i size y rotation.
           op = DrawWatermark i (wm_text w) (wm_position w) size (hexToRgb (wm_color w))
                  (Some y) rotation
           \<and> i < numPages
           \<and> 0 \<le> y \<and> y \<le> 1
           \<and> (0 \<le> x \<and> x \<le> 1 \<longrightarrow> y = x) \<and> (x < 0 \<longrightarrow> y = 0) \<and> (1 < x \<longrightarrow> y = 1)
           \<and> (\<forall>k. wm_fontSize w = Some k \<and> k \<noteq> 0 \<longrightarrow> size = k)
           \<and> (wm_fontSize w = None \<longrightarrow> size = 48)
           \<and> (\<forall>k. wm_rotation w = Some k \<and> k \<noteq> 0 \<longrightarrow> rotation = k)
           \<and> (wm_rotation w = None \<longrightarrow> rotation = 45))"
proof -
  let ?mk = "\<lambda>i. DrawWatermark i (wm_text w) (wm_position w)
                          (watermarkSize (wm_fontSize w)) (hexToRgb (wm_color w))
                          (Some (max 0 (min 1 x))) (watermarkRotation (wm_rotation w))"
  have run: "addWatermarkToPDF lib (Some numPages) w = Inr (map ?mk (watermarkWindow numPages w))"
    using drawWatermarks_ok [OF assms] by (simp add: addWatermarkToPDF_def)
  have fields: "\<exists>i size y rotation.
           op = DrawWatermark i (wm_text w) (wm_position w) size (hexToRgb (wm_color w))
                  (Some y) rotation
           \<and> i < numPages
           \<and> 0 \<le> y \<and> y \<le> 1
           \<and> (0 \<le> x \<and> x \<le> 1 \<longrightarrow> y = x) \<and> (x < 0 \<longrightarrow> y = 0) \<and> (1 < x \<longrightarrow> y = 1)
           \<and> (\<forall>k. wm_fontSize w = Some k \<and> k \<noteq> 0 \<longrightarrow> size = k)
           \<and> (wm_fontSize w = None \<longrightarrow> size = 48)
           \<and> (\<forall>k. wm_rotation w = Some k \<and> k \<noteq> 0 \<longrightarrow> rotation = k)
           \<and> (wm_rotation w = None \<longrightarrow> rotation = 45)"
    if "op \<in> set (map ?mk (watermarkWindow numPages w))" for op
  proof -
    from that obtain i where i: "i \<in> set (watermarkWindow numPages w)" and op: "op = ?mk i"
      by auto
    from watermarkWindow_in_range [OF i] have "i < numPages" .
    with op show ?thesis
      by (auto simp: watermarkSize_def watermarkRotation_def parsedOr_def)
  qed
  with run show ?thesis by blast
qed

theorem addWatermarkToPDF_numeric_fields_witness:
  "addWatermarkToPDF asciiTextLib (Some 2)
       \<lparr> wm_text = ''DRAFT'', wm_fontSize = Some 72, wm_opacity = Some 3,
         wm_color = ''#000000'', wm_rotation = None, wm_position = ''center'',
         wm_startPage = Some 1, wm_endPage = Some 0 \<rparr>
     = Inr [DrawWatermark 0 ''DRAFT'' ''center'' 72 \<lparr> rgb_r = 0, rgb_g = 0, rgb_b = 0 \<rparr> (Some 1) 45,
            DrawWatermark 1 ''DRAFT'' ''center'' 72 \<lparr> rgb_r = 0, rgb_g = 0, rgb_b = 0 \<rparr> (Some 1) 45]"
proof -
  let ?w = "\<lparr> wm_text = ''DRAFT'', wm_fontSize = Some 72, wm_opacity = Some 3,
         wm_color = ''#000000'', wm_rotation = None, wm_position = ''center'',
         wm_startPage = Some 1, wm_endPage = Some 0 \<rparr>"
  have h1: "tl_measures asciiTextLib (wm_text ?w)" and h2: "tl_draws asciiTextLib (wm_text ?w)"
    by (simp_all add: asciiTextLib_def)
  have h3: "wm_opacity ?w = Some 3" by simp
  from addWatermarkToPDF_numeric_fields [OF h1 h2 h3, of 2] obtain ops where
    r: "addWatermarkToPDF asciiTextLib (Some 2) ?w = Inr ops" and
    p: "\<forall>op\<in>set ops. \<exists>i size y rotation.
           op = DrawWatermark i (wm_text ?w) (wm_position ?w) size (hexToRgb (wm_color ?w))
                  (Some y) rotation
           \<and> i < 2
           \<and> 0 \<le> y \<and> y \<le> 1
           \<and> (0 \<le> (3::rat) \<and> (3::rat) \<le> 1 \<longrightarrow> y = 3) \<and> ((3::rat) < 0 \<longrightarrow> y = 0)
           \<and> (1 < (3::rat) \<longrightarrow> y = 1)
           \<and> (\<forall>k. wm_fontSize ?w = Some k \<and> k \<noteq> 0 \<longrightarrow> size = k)
           \<and> (wm_fontSize ?w = None \<longrightarrow> size = 48)
           \<and> (\<forall>k. wm_rotation ?w = Some k \<and> k \<noteq> 0 \<longrightarrow> rotation = k)
           \<and> (wm_rotation ?w = None \<longrightarrow> rotation = 45)"
    by blast
  have fields: "\<exists>i. op = DrawWatermark i ''DRAFT'' ''center'' 72 (hexToRgb ''#000000'') (Some 1) 45"
    if "op \<in> set ops" for op
    using p [rule_format, OF that] by fastforce
  have ws: "map (\<lambda>op. case op of DrawWatermark i _ _ _ _ _ _ \<Rightarrow> i | _ \<Rightarrow> 0) ops = [0, 1]"
    using r
    by (auto simp: addWatermarkToPDF_def watermarkWindow_def upto.simps asciiTextLib_def
          watermarkOpacity_def)
  then obtain a b where ops: "ops = [a, b]" by auto
  from fields [of a] fields [of b] ws ops
  have "ops = [DrawWatermark 0 ''DRAFT'' ''center'' 72 (hexToRgb ''#000000'') (Some 1) 45,
               DrawWatermark 1 ''DRAFT'' ''center'' 72 (hexToRgb ''#000000'') (Some 1) 45]"
    by auto
  moreover have "hexToRgb ''#000000'' = \<lparr> rgb_r = 0, rgb_g = 0, rgb_b = 0 \<rparr>"
    by (simp add: hexToRgb_def hexPattern_def isHexDigit_def parseHexPair_def hexDigitValue_def)
  ultimately show ?thesis using r by simp
qed

section \<open>MergeOrchestrator\<close>

lemma copyInBatches_done:
  "\<not> pageStart < length (src_pages doc) \<Longrightarrow> copyInBatches doc bufferLength pageStart = ([], [])"
  by (subst copyInBatches.simps) (simp add: Let_def)

lemma copyInBatches_step:
  "pageStart < length (src_pages doc) \<Longrightarrow>
     copyInBatches doc bufferLength pageStart =
       (case copyBatch doc [pageStart..<min (pageStart + batchSizeFor bufferLength) (length (src_pages doc))] of
          (batchPages, batchSkipped) \<Rightarrow>
            (case copyInBatches doc bufferLength (pageStart + batchSizeFor bufferLength) of
               (morePages, moreSkipped) \<Rightarrow> (batchPages @ morePages, batchSkipped @ moreSkipped)))"
  by (subst copyInBatches.simps) (simp add: Let_def)

lemma copySingly_count:
  "copySingly doc idx = (ps, sk) \<Longrightarrow> length ps + length sk = length idx"
proof (induction idx arbitrary: ps sk)
  case Nil
  then show ?case by simp
next
  case (Cons i idx)
  obtain ps' sk' where r: "copySingly doc idx = (ps', sk')" by (cases "copySingly doc idx") auto
  from Cons.IH [OF r] have "length ps' + length sk' = length idx" .
  with Cons.prems r show ?case by (auto split: if_splits)
qed

lemma copyBatch_count:
  "copyBatch doc idx = (ps, sk) \<Longrightarrow> length ps + length sk = length idx"
  by (auto simp: copyBatch_def copySingly_count split: if_splits)

lemma copyInBatches_count:
  "copyInBatches doc bufferLength pageStart = (ps, sk) \<Longrightarrow>
     length ps + length sk = length (src_pages doc) - pageStart"
proof (induction doc bufferLength pageStart arbitrary: ps sk rule: copyInBatches.induct)
  case (1 doc bufferLength pageStart)
  define n where "n = length (src_pages doc)"
  define bs where "bs = batchSizeFor bufferLength"
  show ?case
  proof (cases "pageStart < n")
    case False
    with "1.prems" show ?thesis
      by (subst (asm) copyInBatches.simps) (simp add: n_def Let_def)
  next
    case True
    define pageEnd where "pageEnd = min (pageStart + bs) n"
    obtain bp bsk where b: "copyBatch doc [pageStart..<pageEnd] = (bp, bsk)"
      by (cases "copyBatch doc [pageStart..<pageEnd]") auto
    obtain mp msk where m: "copyInBatches doc bufferLength (pageStart + bs) = (mp, msk)"
      by (cases "copyInBatches doc bufferLength (pageStart + bs)") auto
    have unfold: "copyInBatches doc bufferLength pageStart = (bp @ mp, bsk @ msk)"
      using True b m
      by (subst copyInBatches.simps) (simp add: n_def bs_def pageEnd_def Let_def)
    have ih: "length mp + length msk = n - (pageStart + bs)"
      using "1.IH" [OF refl refl _ refl refl, of bp bsk mp msk] True b m
      by (simp add: n_def bs_def pageEnd_def)
    from copyBatch_count [OF b] have "length bp + length bsk = pageEnd - pageStart" by simp
    moreover have "pageEnd - pageStart + (n - (pageStart + bs)) = n - pageStart"
      using True by (simp add: pageEnd_def min_def)
    ultimately have "length (bp @ mp) + length (bsk @ msk) = n - pageStart"
      using ih by simp
    with unfold "1.prems" show ?thesis by (simp add: n_def)
  qed
qed


lemma processFiles_count:
  "processFiles lib bufs i merged skipped = (Inr m, sk) \<Longrightarrow>
     \<exists>docs. map (lib_load lib mergeLoadOptions) bufs = map Inr docs
       \<and> length m + length sk
           = length merged + length skipped + sum_list (map (\<lambda>d. length (src_pages d)) docs)"
proof (induction bufs arbitrary: i merged skipped)
  case Nil
  then show ?case by simp
next
  case (Cons b bufs)
  from Cons.prems have nt: "\<not> lib_timerFirst lib b" by (auto split: if_splits)
  from Cons.prems nt obtain cur where cur: "lib_load lib mergeLoadOptions b = Inr cur"
    by (cases "lib_load lib mergeLoadOptions b") auto
  obtain ps sks where c: "copyInBatches cur (length b) 0 = (ps, sks)"
    by (cases "copyInBatches cur (length b) 0") auto
  from Cons.prems nt cur c
  have "processFiles lib bufs (i + 1) (merged @ ps) (skipped @ map (\<lambda>idx. (i + 1, idx)) sks) = (Inr m, sk)"
    by simp
  from Cons.IH [OF this] obtain docs where
    l: "map (lib_load lib mergeLoadOptions) bufs = map Inr docs" and
    n: "length m + length sk
          = length (merged @ ps) + length (skipped @ map (\<lambda>idx. (i + 1, idx)) sks)
            + sum_list (map (\<lambda>d. length (src_pages d)) docs)"
    by blast
  from copyInBatches_count [OF c] have "length ps + length sks = length (src_pages cur)" by simp
  with n have "length m + length sk
          = length merged + length skipped + sum_list (map (\<lambda>d. length (src_pages d)) (cur # docs))"
    by simp
  moreover from l cur have "map (lib_load lib mergeLoadOptions) (b # bufs) = map Inr (cur # docs)"
    by simp
  ultimately show ?case by blast
qed

lemma saveAndValidate_ok:
  "saveAndValidate lib m = Inr out \<Longrightarrow>
     lib_save lib mergeSaveOptions m = Some out
     \<and> (\<exists>v. lib_load lib validationLoadOptions out = Inr v \<and> length (src_pages v) = length m)
     \<and> validatePDFStructure out = None"
  by (auto simp: saveAndValidate_def Let_def split: option.splits sum.splits if_splits)

lemma mergeRun_ok:
  assumes "mergeRun lib bufs = (Inr out, sk)"
  shows "2 \<le> length bufs
     \<and> sum_list (map length bufs) \<le> 500 * megabyte
     \<and> (\<exists>docs v. map (lib_load lib mergeLoadOptions) bufs = map Inr docs
           \<and> lib_load lib validationLoadOptions out = Inr v
           \<and> length (src_pages v) + length sk = sum_list (map (\<lambda>d. length (src_pages d)) docs))
     \<and> validatePDFStructure out = None"
proof -
  from assms have ne: "bufs \<noteq> []" and n1: "length bufs \<noteq> 1"
    and sz: "\<not> sum_list (map length bufs) > 500 * megabyte"
    by (auto simp: mergeRun_def split: if_splits)
  from ne n1 have two: "2 \<le> length bufs" by (cases bufs) (auto simp: Suc_le_eq)
  obtain r sk' where pf: "processFiles lib bufs 0 [] [] = (r, sk')"
    by (cases "processFiles lib bufs 0 [] []") auto
  with assms ne n1 sz obtain m where r: "r = Inr m" and sv: "saveAndValidate lib m = Inr out"
    and sk: "sk' = sk"
    by (cases r) (auto simp: mergeRun_def)
  from processFiles_count [OF pf [unfolded r]] obtain docs where
    l: "map (lib_load lib mergeLoadOptions) bufs = map Inr docs" and
    n: "length m + length sk' = sum_list (map (\<lambda>d. length (src_pages d)) docs)"
    by auto
  from saveAndValidate_ok [OF sv] obtain v where
    v: "lib_load lib validationLoadOptions out = Inr v" "length (src_pages v) = length m"
    and ok: "validatePDFStructure out = None"
    by blast
  from two sz l n v ok sk show ?thesis by auto
qed

lemma saveAndValidate_corrupted:
  assumes "lib_save lib mergeSaveOptions m = Some saved"
    and "validatePDFStructure saved \<noteq> None
         \<or> (\<forall>v. lib_load lib validationLoadOptions saved = Inr v \<longrightarrow> length (src_pages v) \<noteq> length m)"
  shows "saveAndValidate lib m = Inl GeneratedCorrupted"
  using assms
  by (cases "lib_load lib validationLoadOptions saved") (auto simp: saveAndValidate_def Let_def)

text \<open>
  C2. When a merge returns bytes and no page was skipped while copying, there were at
  least two input documents, all of them loaded, the returned bytes load again under
  the strict options as a document whose page count is the sum of the page counts of
  the inputs, and they pass the structure check. And whenever the saved bytes fail the
  structure check, do not load again, or load with a page count other than the number
  of pages copied, the validation ends in an error and no bytes are returned.
\<close>

theorem mergePDFs_page_count:
  "(mergePDFs lib pdfBuffers = Inr out \<and> skippedPages lib pdfBuffers = [] \<longrightarrow>
      2 \<le> length pdfBuffers
      \<and> (\<exists>docs v. map (lib_load lib mergeLoadOptions) pdfBuffers = map Inr docs
            \<and> lib_load lib validationLoadOptions out = Inr v
            \<and> length (src_pages v) = sum_list (map (\<lambda>d. length (src_pages d)) docs))
      \<and> validatePDFStructure out = None)
   \<and> (\<forall>merged saved.
         lib_save lib mergeSaveOptions merged = Some saved
         \<and> (validatePDFStructure saved \<noteq> None
              \<or> (\<forall>v. lib_load lib validationLoadOptions saved = Inr v
                       \<longrightarrow> length (src_pages v) \<noteq> length merged))
         \<longrightarrow> saveAndValidate lib merged = Inl GeneratedCorrupted)"
proof (intro conjI impI allI)
  assume a: "mergePDFs lib pdfBuffers = Inr out \<and> skippedPages lib pdfBuffers = []"
  then have "mergeRun lib pdfBuffers = (Inr out, [])"
    by (simp add: mergePDFs_def skippedPages_def prod_eq_iff)
  from mergeRun_ok [OF this]
  show "2 \<le> length pdfBuffers"
    and "\<exists>docs v. map (lib_load lib mergeLoadOptions) pdfBuffers = map Inr docs
            \<and> lib_load lib validationLoadOptions out = Inr v
            \<and> length (src_pages v) = sum_list (map (\<lambda>d. length (src_pages d)) docs)"
    and "validatePDFStructure out = None"
    by simp_all
next
  fix merged saved
  assume "lib_save lib mergeSaveOptions merged = Some saved
         \<and> (validatePDFStructure saved \<noteq> None
              \<or> (\<forall>v. lib_load lib validationLoadOptions saved = Inr v
                       \<longrightarrow> length (src_pages v) \<noteq> length merged))"
  then show "saveAndValidate lib merged = Inl GeneratedCorrupted"
    using saveAndValidate_corrupted by blast
qed

lemma processFiles_total:
  "\<forall>b\<in>set bufs. \<not> lib_timerFirst lib b \<and> (\<exists>d. lib_load lib mergeLoadOptions b = Inr d) \<Longrightarrow>
     \<exists>m sk. processFiles lib bufs i merged skipped = (Inr m, sk)"
proof (induction bufs arbitrary: i merged skipped)
  case Nil
  then show ?case by simp
next
  case (Cons b bufs)
  from Cons.prems obtain cur where nt: "\<not> lib_timerFirst lib b"
    and cur: "lib_load lib mergeLoadOptions b = Inr cur" by auto
  obtain ps sks where c: "copyInBatches cur (length b) 0 = (ps, sks)"
    by (cases "copyInBatches cur (length b) 0") auto
  from Cons.prems have "\<forall>b\<in>set bufs. \<not> lib_timerFirst lib b \<and> (\<exists>d. lib_load lib mergeLoadOptions b = Inr d)"
    by simp
  from Cons.IH [OF this, of "i + 1" "merged @ ps" "skipped @ map (\<lambda>idx. (i + 1, idx)) sks"]
  show ?case using nt cur c by simp
qed

text \<open>
  C9, amended. Skipped pages do not abort a merge: when there are at least two buffers
  within the size limit and each of them loads in time, the outcome of the merge is
  that of saving and validating the pages that were copied, whose number is the sum of
  the page counts of the inputs less the number of skipped pages; bytes that are
  returned load again with that page count. The skipped pages are reported on the
  console and are no part of what is returned.
\<close>

theorem mergePDFs_skips_not_returned:
  assumes "2 \<le> length pdfBuffers"
    and "sum_list (map length pdfBuffers) \<le> 500 * megabyte"
    and "\<forall>b\<in>set pdfBuffers.
           \<not> lib_timerFirst lib b \<and> (\<exists>d. lib_load lib mergeLoadOptions b = Inr d)"
  shows "\<exists>docs merged.
           map (lib_load lib mergeLoadOptions) pdfBuffers = map Inr docs
           \<and> mergePDFs lib pdfBuffers = saveAndValidate lib merged
           \<and> length merged + length (skippedPages lib pdfBuffers)
               = sum_list (map (\<lambda>d. length (src_pages d)) docs)
           \<and> (\<forall>out. mergePDFs lib pdfBuffers = Inr out \<longrightarrow>
                 (\<exists>v. lib_load lib validationLoadOptions out = Inr v
                    \<and> length (src_pages v) + length (skippedPages lib pdfBuffers)
                        = sum_list (map (\<lambda>d. length (src_pages d)) docs)))"
proof -
  from processFiles_total [OF assms(3), of 0 "[]" "[]"] obtain m sk where
    pf: "processFiles lib pdfBuffers 0 [] [] = (Inr m, sk)" by blast
  from assms(1) have ne: "pdfBuffers \<noteq> []" "length pdfBuffers \<noteq> 1" by auto
  with assms(2) pf have run: "mergeRun lib pdfBuffers = (saveAndValidate lib m, sk)"
    by (simp add: mergeRun_def)
  then have res: "mergePDFs lib pdfBuffers = saveAndValidate lib m"
    and sk: "skippedPages lib pdfBuffers = sk"
    by (simp_all add: mergePDFs_def skippedPages_def)
  from processFiles_count [OF pf] obtain docs where
    l: "map (lib_load lib mergeLoadOptions) pdfBuffers = map Inr docs" and
    n: "length m + length sk = sum_list (map (\<lambda>d. length (src_pages d)) docs)"
    by auto
  have "\<exists>v. lib_load lib validationLoadOptions out = Inr v
            \<and> length (src_pages v) + length sk = sum_list (map (\<lambda>d. length (src_pages d)) docs)"
    if "mergePDFs lib pdfBuffers = Inr out" for out
  proof -
    from that res have "saveAndValidate lib m = Inr out" by simp
    from saveAndValidate_ok [OF this] n show ?thesis by auto
  qed
  with l res n sk show ?thesis by blast
qed

lemma sample_A: "mergeRun sampleMergeLib [''A'', ''B''] = (Inr (sampleSaved [''a1'', ''b1'']), [(1, 1)])"
  by (simp add: mergeRun_def sampleMergeLib_def megabyte_def copyInBatches_step copyInBatches_done
        batchSizeFor_def copyBatch_def upt_rec saveAndValidate_def sampleSaved_def
        validatePDFStructure_def dropBOM_def)

lemma sample_A1: "mergeRun sampleMergeLib [''A1'', ''B''] = (Inr (sampleSaved [''a1'', ''b1'']), [])"
  by (simp add: mergeRun_def sampleMergeLib_def megabyte_def copyInBatches_step copyInBatches_done
        batchSizeFor_def copyBatch_def upt_rec saveAndValidate_def sampleSaved_def
        validatePDFStructure_def dropBOM_def)


theorem mergePDFs_page_count_witness:
  "mergePDFs sampleMergeLib [''A1'', ''B''] = Inr (sampleSaved [''a1'', ''b1''])
   \<and> skippedPages sampleMergeLib [''A1'', ''B''] = []
   \<and> validatePDFStructure (sampleSaved [''a1'', ''b1'']) = None"
proof -
  have r: "mergePDFs sampleMergeLib [''A1'', ''B''] = Inr (sampleSaved [''a1'', ''b1''])"
    and k: "skippedPages sampleMergeLib [''A1'', ''B''] = []"
    using sample_A1 by (simp_all add: mergePDFs_def skippedPages_def)
  from mergePDFs_page_count [of sampleMergeLib "[''A1'', ''B'']" "sampleSaved [''a1'', ''b1'']"] r k
  show ?thesis by blast
qed

text \<open>
  C9, as stated, fails: a merge in which one page is skipped and a merge in which none
  is skipped return the same value to the caller, so the value returned does not
  report the number of skipped pages.
\<close>

theorem mergePDFs_skip_not_visible:
  "mergePDFs sampleMergeLib [''A'', ''B''] = Inr (sampleSaved [''a1'', ''b1''])
   \<and> skippedPages sampleMergeLib [''A'', ''B''] = [(1, 1)]
   \<and> mergePDFs sampleMergeLib [''A1'', ''B''] = Inr (sampleSaved [''a1'', ''b1''])
   \<and> skippedPages sampleMergeLib [''A1'', ''B''] = []"
  using sample_A sample_A1 by (simp add: mergePDFs_def skippedPages_def)

theorem mergePDFs_skips_not_returned_witness:
  "mergePDFs sampleMergeLib [''A'', ''B''] = Inr (sampleSaved [''a1'', ''b1''])
   \<and> length (skippedPages sampleMergeLib [''A'', ''B'']) = 1
   \<and> length (src_pages (projr (lib_load sampleMergeLib validationLoadOptions
         (sampleSaved [''a1'', ''b1'']))))
       + length (skippedPages sampleMergeLib [''A'', ''B'']) = 3"
proof -
  have h1: "2 \<le> length [''A'', ''B'']" by simp
  have h2: "sum_list (map length [''A'', ''B'']) \<le> 500 * megabyte" by (simp add: megabyte_def)
  have h3: "\<forall>b\<in>set [''A'', ''B''].
           \<not> lib_timerFirst sampleMergeLib b \<and> (\<exists>d. lib_load sampleMergeLib mergeLoadOptions b = Inr d)"
    by (simp add: sampleMergeLib_def)
  have r: "mergePDFs sampleMergeLib [''A'', ''B''] = Inr (sampleSaved [''a1'', ''b1''])"
    and k: "skippedPages sampleMergeLib [''A'', ''B''] = [(1, 1)]"
    using sample_A by (simp_all add: mergePDFs_def skippedPages_def)
  from mergePDFs_skips_not_returned [OF h1 h2 h3] obtain docs where
    l: "map (lib_load sampleMergeLib mergeLoadOptions) [''A'', ''B''] = map Inr docs" and
    f: "\<forall>out. mergePDFs sampleMergeLib [''A'', ''B''] = Inr out \<longrightarrow>
          (\<exists>v. lib_load sampleMergeLib validationLoadOptions out = Inr v
             \<and> length (src_pages v) + length (skippedPages sampleMergeLib [''A'', ''B''])
                 = sum_list (map (\<lambda>d. length (src_pages d)) docs))"
    by blast
  from l have "sum_list (map (\<lambda>d. length (src_pages d)) docs) = 3"
    by (auto simp: sampleMergeLib_def Cons_eq_map_conv)
  with f [rule_format, OF r] obtain v where
    "lib_load sampleMergeLib validationLoadOptions (sampleSaved [''a1'', ''b1'']) = Inr v"
    "length (src_pages v) + length (skippedPages sampleMergeLib [''A'', ''B'']) = 3"
    by auto
  with r k show ?thesis by simp
qed

section \<open>CompressionAdvisor\<close>

lemma tryProfiles_None:
  "fst (tryProfiles lib ps d best) = None \<longleftrightarrow>
     best = None \<and> (\<forall>r\<in>set (attemptResults lib ps d). r = None)"
proof (induction ps arbitrary: d best)
  case Nil
  then show ?case by simp
next
  case (Cons s ps)
  obtain r d' where sv: "cl_save lib s d = (r, d')" by (cases "cl_save lib s d") auto
  show ?case
  proof (cases r)
    case None
    with sv Cons.IH [of d' best] show ?thesis by simp
  next
    case (Some res)
    with sv Cons.IH [of d' "case best of None \<Rightarrow> Some res
                              | Some b \<Rightarrow> (if length res < length b then Some res else Some b)"]
    show ?thesis by (auto split: option.splits if_splits)
  qed
qed

lemma tryProfiles_Some:
  "fst (tryProfiles lib ps d best) = Some out \<Longrightarrow>
     (Some out \<in> set (attemptResults lib ps d) \<or> best = Some out)
     \<and> (\<forall>c. Some c \<in> set (attemptResults lib ps d) \<longrightarrow> length out \<le> length c)
     \<and> (\<forall>b. best = Some b \<longrightarrow> length out \<le> length b)"
proof (induction ps arbitrary: d best)
  case Nil
  then show ?case by simp
next
  case (Cons s ps)
  obtain r d' where sv: "cl_save lib s d = (r, d')" by (cases "cl_save lib s d") auto
  show ?case
  proof (cases r)
    case None
    with sv Cons.prems have "fst (tryProfiles lib ps d' best) = Some out" by simp
    from Cons.IH [OF this] sv None show ?thesis by auto
  next
    case (Some res)
    define best' where "best' = (case best of None \<Rightarrow> Some res
                              | Some b \<Rightarrow> (if length res < length b then Some res else Some b))"
    from sv Some Cons.prems have "fst (tryProfiles lib ps d' best') = Some out"
      by (simp add: best'_def)
    from Cons.IH [OF this]
    have ih: "Some out \<in> set (attemptResults lib ps d') \<or> best' = Some out"
      "\<forall>c. Some c \<in> set (attemptResults lib ps d') \<longrightarrow> length out \<le> length c"
      "\<forall>b. best' = Some b \<longrightarrow> length out \<le> length b"
      by blast+
    have ar: "attemptResults lib (s # ps) d = Some res # attemptResults lib ps d'"
      using sv Some by simp
    have b1: "length out \<le> length res"
      using ih(3) by (auto simp: best'_def split: option.splits if_splits)
    have b2: "\<forall>b. best = Some b \<longrightarrow> length out \<le> length b"
      using ih(3) by (auto simp: best'_def split: option.splits if_splits)
    have b3: "Some out \<in> set (Some res # attemptResults lib ps d') \<or> best = Some out"
      using ih(1) by (auto simp: best'_def split: option.splits if_splits)
    from b1 b2 b3 ih(2) show ?thesis unfolding ar by auto
  qed
qed

text \<open>What a successful call of \<open>compressPDF\<close> returns.\<close>

lemma compressPDF_InrD:
  assumes "compressPDF lib buf cd = Inr out"
  shows "cl_reloads lib out
     \<and> (\<exists>finalDoc. prepareDocument lib buf cd = Some finalDoc
          \<and> ((Some out \<in> set (attemptResults lib (profilesFor (cd_compressionLevel cd)) finalDoc)
                \<and> (\<forall>c. Some c \<in> set (attemptResults lib (profilesFor (cd_compressionLevel cd)) finalDoc)
                       \<longrightarrow> length out \<le> length c))
              \<or> ((\<forall>r\<in>set (attemptResults lib (profilesFor (cd_compressionLevel cd)) finalDoc). r = None)
                  \<and> fst (cl_save lib basicSettings
                           (snd (tryProfiles lib (profilesFor (cd_compressionLevel cd)) finalDoc None)))
                      = Some out)))"
proof -
  from assms obtain finalDoc where p: "prepareDocument lib buf cd = Some finalDoc"
    by (cases "prepareDocument lib buf cd") (auto simp: compressPDF_def)
  let ?ps = "profilesFor (cd_compressionLevel cd)"
  obtain tried docAfter where t: "tryProfiles lib ?ps finalDoc None = (tried, docAfter)"
    by (cases "tryProfiles lib ?ps finalDoc None") auto
  show ?thesis
  proof (cases tried)
    case None
    with assms p t have fb: "fst (cl_save lib basicSettings docAfter) = Some out" and v: "cl_reloads lib out"
      by (auto simp: compressPDF_def split: option.splits if_splits)
    from t None have "fst (tryProfiles lib ?ps finalDoc None) = None" by simp
    then have "\<forall>r\<in>set (attemptResults lib ?ps finalDoc). r = None"
      by (simp add: tryProfiles_None)
    with fb v p t show ?thesis by simp
  next
    case (Some best)
    with assms p t have o: "best = out" and v: "cl_reloads lib out"
      by (auto simp: compressPDF_def split: if_splits)
    from t Some o have "fst (tryProfiles lib ?ps finalDoc None) = Some out" by simp
    from tryProfiles_Some [OF this] v p show ?thesis by simp
  qed
qed





lemma libStreamsLarger_high:
  "compressPDF libStreamsLarger ''%PDF-1.4 in''
      \<lparr> cd_compressionLevel = ''high'', cd_removeMetadata = True \<rparr> = Inr ''%PDF-1.7 plain''"
  by (simp add: compressPDF_def prepareDocument_def libStreamsLarger_def profilesFor_def
        primarySettings_def getCompressionSettings_def alternativeSettings_def basicSettings_def)


lemma libStreamsLarger_low:
  "compressPDF libStreamsLarger ''%PDF-1.4 in''
      \<lparr> cd_compressionLevel = ''low'', cd_removeMetadata = True \<rparr> = Inr ''%PDF-1.7 plain''"
  by (simp add: compressPDF_def prepareDocument_def libStreamsLarger_def profilesFor_def
        primarySettings_def getCompressionSettings_def alternativeSettings_def basicSettings_def)

lemma libStreamsLarger_medium:
  "compressPDF libStreamsLarger ''%PDF-1.4 in''
      \<lparr> cd_compressionLevel = ''medium'', cd_removeMetadata = True \<rparr>
     = Inr ''%PDF-1.7 with object streams''"
  by (simp add: compressPDF_def prepareDocument_def libStreamsLarger_def profilesFor_def
        primarySettings_def getCompressionSettings_def alternativeSettings_def basicSettings_def)

text \<open>
  C8, as stated, fails: with a library whose output with object streams is the longer
  one, the tier \<open>medium\<close> returns more bytes than the tier \<open>low\<close> on the same input.
\<close>

theorem compressPDF_medium_larger_than_low:
  "compressPDF libStreamsLarger ''%PDF-1.4 in''
      \<lparr> cd_compressionLevel = ''low'', cd_removeMetadata = True \<rparr> = Inr ''%PDF-1.7 plain''
   \<and> compressPDF libStreamsLarger ''%PDF-1.4 in''
      \<lparr> cd_compressionLevel = ''medium'', cd_removeMetadata = True \<rparr>
       = Inr ''%PDF-1.7 with object streams''
   \<and> length ''%PDF-1.7 plain'' < length ''%PDF-1.7 with object streams''"
  using libStreamsLarger_low libStreamsLarger_medium by simp

lemma attemptResults_pure:
  "\<forall>s d. snd (cl_save lib s d) = d \<Longrightarrow>
     attemptResults lib ps d = map (\<lambda>s. fst (cl_save lib s d)) ps"
proof (induction ps arbitrary: d)
  case Nil
  then show ?case by simp
next
  case (Cons s ps)
  obtain r d' where sv: "cl_save lib s d = (r, d')" by (cases "cl_save lib s d") auto
  with Cons.prems have "d' = d" by (metis snd_conv)
  with sv Cons.IH [OF Cons.prems, of d] show ?case by simp
qed

lemma tryProfiles_pure:
  "\<forall>s d. snd (cl_save lib s d) = d \<Longrightarrow> snd (tryProfiles lib ps d best) = d"
proof (induction ps arbitrary: d best)
  case Nil
  then show ?case by simp
next
  case (Cons s ps)
  obtain r d' where sv: "cl_save lib s d = (r, d')" by (cases "cl_save lib s d") auto
  with Cons.prems have "d' = d" by (metis snd_conv)
  with sv Cons.IH [OF Cons.prems] show ?case by (cases r) simp_all
qed

lemma prepareDocument_level:
  "l \<noteq> ''maximum'' \<Longrightarrow> l' \<noteq> ''maximum'' \<Longrightarrow>
     prepareDocument lib buf \<lparr> cd_compressionLevel = l, cd_removeMetadata = rm \<rparr>
       = prepareDocument lib buf \<lparr> cd_compressionLevel = l', cd_removeMetadata = rm \<rparr>"
  by (cases "cl_load lib buf") (simp_all add: prepareDocument_def)

text \<open>
  With a \<open>save\<close> that leaves the document as it is and does not depend on
  \<open>objectsPerTick\<close>, whatever the tiers \<open>medium\<close> and \<open>low\<close> return is among the results
  of the attempts of the tier \<open>high\<close>.
\<close>

lemma lower_tier_among_high:
  assumes pure: "\<forall>s d. snd (cl_save lib s d) = d"
    and ticks: "\<forall>s k d. fst (cl_save lib (s\<lparr>objectsPerTick := k\<rparr>) d) = fst (cl_save lib s d)"
    and lvl: "l = ''medium'' \<or> l = ''low''"
    and low: "compressPDF lib buf \<lparr> cd_compressionLevel = l, cd_removeMetadata = rm \<rparr> = Inr m"
    and prep: "prepareDocument lib buf \<lparr> cd_compressionLevel = ''high'', cd_removeMetadata = rm \<rparr>
                 = Some finalDoc"
  shows "Some m \<in> set (attemptResults lib (profilesFor ''high'') finalDoc)"
proof -
  let ?T = "fst (cl_save lib (primarySettings ''high'') finalDoc)"
  let ?F = "fst (cl_save lib (alternativeSettings ! 0) finalDoc)"
  have high: "attemptResults lib (profilesFor ''high'') finalDoc
                = map (\<lambda>s. fst (cl_save lib s finalDoc)) (profilesFor ''high'')"
    by (rule attemptResults_pure [OF pure])
  have inT: "?T \<in> set (attemptResults lib (profilesFor ''high'') finalDoc)"
    unfolding high by (simp add: profilesFor_def)
  have inF: "?F \<in> set (attemptResults lib (profilesFor ''high'') finalDoc)"
    unfolding high by (simp add: profilesFor_def alternativeSettings_def)
  have med: "fst (cl_save lib (primarySettings ''medium'') finalDoc) = ?T"
  proof -
    have eq: "primarySettings ''medium'' = (primarySettings ''high'')\<lparr>objectsPerTick := 25\<rparr>"
      by (simp add: primarySettings_def getCompressionSettings_def)
    show ?thesis by (subst eq) (rule ticks [rule_format])
  qed
  have lo: "fst (cl_save lib (primarySettings ''low'') finalDoc) = ?F"
  proof -
    have eq: "primarySettings ''low'' = (alternativeSettings ! 0)\<lparr>objectsPerTick := 100\<rparr>"
      by (simp add: primarySettings_def getCompressionSettings_def alternativeSettings_def)
    show ?thesis by (subst eq) (rule ticks [rule_format])
  qed
  have basic: "fst (cl_save lib basicSettings finalDoc) = ?F"
  proof -
    have eq: "basicSettings = (alternativeSettings ! 0)\<lparr>objectsPerTick := 50\<rparr>"
      by (simp add: basicSettings_def alternativeSettings_def)
    show ?thesis by (subst eq) (rule ticks [rule_format])
  qed
  from lvl have nm: "l \<noteq> ''maximum''" "''high'' \<noteq> ''maximum''" by auto
  from prep prepareDocument_level [OF nm, of lib buf rm]
  have prep': "prepareDocument lib buf \<lparr> cd_compressionLevel = l, cd_removeMetadata = rm \<rparr> = Some finalDoc"
    by simp
  have one: "attemptResults lib (profilesFor l) finalDoc = [fst (cl_save lib (primarySettings l) finalDoc)]"
  proof -
    have "profilesFor l = [primarySettings l]" using lvl by (auto simp: profilesFor_def)
    then show ?thesis by (simp only: attemptResults_pure [OF pure] list.map)
  qed
  have after: "snd (tryProfiles lib (profilesFor l) finalDoc None) = finalDoc"
    by (rule tryProfiles_pure [OF pure])
  from compressPDF_InrD [OF low] prep' one after
  have "fst (cl_save lib (primarySettings l) finalDoc) = Some m
        \<or> fst (cl_save lib basicSettings finalDoc) = Some m"
    by auto
  with lvl med lo basic have "?T = Some m \<or> ?F = Some m" by auto
  with inT inF show ?thesis by metis
qed

text \<open>
  C8, amended. Within a tier the output returned is never longer than an output that
  one of the saves of that tier produced. Across tiers the sizes are ordered only as far
  as the profiles are shared: when \<open>save\<close> leaves the document as it is and its output
  does not depend on \<open>objectsPerTick\<close>, the tier \<open>high\<close> returns no more bytes than the
  tier \<open>medium\<close> and no more than the tier \<open>low\<close> on the same input.
\<close>

theorem compressPDF_tier_minimal:
  "(\<forall>out finalDoc c.
      compressPDF lib buf cd = Inr out
      \<and> prepareDocument lib buf cd = Some finalDoc
      \<and> Some c \<in> set (attemptResults lib (profilesFor (cd_compressionLevel cd)) finalDoc)
      \<longrightarrow> length out \<le> length c)
   \<and> ((\<forall>s d. snd (cl_save lib s d) = d)
       \<and> (\<forall>s k d. fst (cl_save lib (s\<lparr>objectsPerTick := k\<rparr>) d) = fst (cl_save lib s d))
       \<longrightarrow> (\<forall>h m l.
             compressPDF lib buf \<lparr> cd_compressionLevel = ''high'', cd_removeMetadata = rm \<rparr> = Inr h
             \<longrightarrow> (compressPDF lib buf \<lparr> cd_compressionLevel = ''medium'', cd_removeMetadata = rm \<rparr> = Inr m
                    \<longrightarrow> length h \<le> length m)
               \<and> (compressPDF lib buf \<lparr> cd_compressionLevel = ''low'', cd_removeMetadata = rm \<rparr> = Inr l
                    \<longrightarrow> length h \<le> length l)))"
proof (intro conjI allI impI)
  fix out finalDoc c
  assume a: "compressPDF lib buf cd = Inr out
      \<and> prepareDocument lib buf cd = Some finalDoc
      \<and> Some c \<in> set (attemptResults lib (profilesFor (cd_compressionLevel cd)) finalDoc)"
  with compressPDF_InrD [of lib buf cd out] show "length out \<le> length c" by auto
next
  fix h m l
  assume lib: "(\<forall>s d. snd (cl_save lib s d) = d)
       \<and> (\<forall>s k d. fst (cl_save lib (s\<lparr>objectsPerTick := k\<rparr>) d) = fst (cl_save lib s d))"
    and h: "compressPDF lib buf \<lparr> cd_compressionLevel = ''high'', cd_removeMetadata = rm \<rparr> = Inr h"
  from compressPDF_InrD [OF h] obtain finalDoc where
    prep: "prepareDocument lib buf \<lparr> cd_compressionLevel = ''high'', cd_removeMetadata = rm \<rparr>
             = Some finalDoc" and
    best: "(\<forall>c. Some c \<in> set (attemptResults lib (profilesFor ''high'') finalDoc) \<longrightarrow> length h \<le> length c)
           \<or> (\<forall>r\<in>set (attemptResults lib (profilesFor ''high'') finalDoc). r = None)"
    by auto
  {
    assume "compressPDF lib buf \<lparr> cd_compressionLevel = ''medium'', cd_removeMetadata = rm \<rparr> = Inr m"
    with lib prep have "Some m \<in> set (attemptResults lib (profilesFor ''high'') finalDoc)"
      using lower_tier_among_high [of lib "''medium''" buf rm m finalDoc] by blast
    with best show "length h \<le> length m" by auto
  }
  {
    assume "compressPDF lib buf \<lparr> cd_compressionLevel = ''low'', cd_removeMetadata = rm \<rparr> = Inr l"
    with lib prep have "Some l \<in> set (attemptResults lib (profilesFor ''high'') finalDoc)"
      using lower_tier_among_high [of lib "''low''" buf rm l finalDoc] by blast
    with best show "length h \<le> length l" by auto
  }
qed


theorem compressPDF_tier_minimal_witness:
  "compressPDF libStreamsLarger ''%PDF-1.4 in''
      \<lparr> cd_compressionLevel = ''high'', cd_removeMetadata = True \<rparr> = Inr ''%PDF-1.7 plain''
   \<and> compressPDF libStreamsLarger ''%PDF-1.4 in''
      \<lparr> cd_compressionLevel = ''medium'', cd_removeMetadata = True \<rparr>
       = Inr ''%PDF-1.7 with object streams''
   \<and> Some ''%PDF-1.7 with object streams''
       \<in> set (attemptResults libStreamsLarger (profilesFor ''high'') ())
   \<and> length ''%PDF-1.7 plain'' \<le> length ''%PDF-1.7 with object streams''"
proof -
  let ?high = "\<lparr> cd_compressionLevel = ''high'', cd_removeMetadata = True \<rparr>"
  have pure: "\<forall>s d. snd (cl_save libStreamsLarger s d) = d"
    by (simp add: libStreamsLarger_def)
  have ticks: "\<forall>s k d. fst (cl_save libStreamsLarger (s\<lparr>objectsPerTick := k\<rparr>) d)
                 = fst (cl_save libStreamsLarger s d)"
    by (simp add: libStreamsLarger_def)
  have prep: "prepareDocument libStreamsLarger ''%PDF-1.4 in'' ?high = Some ()"
    by (simp add: prepareDocument_def libStreamsLarger_def)
  have cand: "Some ''%PDF-1.7 with object streams''
       \<in> set (attemptResults libStreamsLarger (profilesFor (cd_compressionLevel ?high)) ())"
    by (simp add: libStreamsLarger_def profilesFor_def primarySettings_def
          getCompressionSettings_def alternativeSettings_def)
  note t = compressPDF_tier_minimal [of libStreamsLarger "''%PDF-1.4 in''" ?high True]
  from t [THEN conjunct1, rule_format, of "''%PDF-1.7 plain''" "()" "''%PDF-1.7 with object streams''"]
    libStreamsLarger_high prep cand
  have a: "length ''%PDF-1.7 plain'' \<le> length ''%PDF-1.7 with object streams''" by blast
  from t [THEN conjunct2, rule_format, of "''%PDF-1.7 plain''" "''%PDF-1.7 with object streams''"]
    pure ticks libStreamsLarger_high libStreamsLarger_medium
  have b: "length ''%PDF-1.7 plain'' \<le> length ''%PDF-1.7 with object streams''" by blast
  from a b libStreamsLarger_high libStreamsLarger_medium cand show ?thesis by simp
qed

end
